theory Spec2Isabelle
  imports Complex_Main
begin

section \<open>Data model (types.ts, database.ts)\<close>

text \<open>
  Conventions of the embedding.
  \<^item> JavaScript numbers that hold confidences, rates, weights and scores are modelled as
    \<^typ>\<open>real\<close>; counters are \<^typ>\<open>nat\<close>.
  \<^item> Strings are lists of code units below 256.
  \<^item> Timestamps (ISO strings in the source, parsed back with \<open>new Date(...).getTime()\<close>)
    are modelled as milliseconds since the epoch, an \<^typ>\<open>int\<close>. The clock is an
    explicit argument \<open>now\<close> of every operation; all clock reads of one call see it.
  \<^item> \<open>uuidv7()\<close> is modelled by a counter kept in the database state: every call
    returns a value never returned before.
  \<^item> The tables are lists of rows in insertion order, which is the order a SELECT without
    ORDER BY is taken to return them in. The PRIMARY KEY of \<open>clauses\<close> is not checked by the
    model's INSERT; where uniqueness of ids matters it is a hypothesis on the state.
  \<^item> A thrown exception is the left injection of a sum; the database state reached when
    the exception was thrown is returned with it, since statements already executed stay
    persisted.
  \<^item> The full-text index and the embedding provider are collaborators outside the
    repository; they are parameters of the operations that call them. In the retriever a
    MATCH statement throws when the index rejects its expression, and a call of the
    provider may throw.
\<close>

datatype ClauseType =
  Fact | Preference | Habit | Skill | Relationship | Intention | ContextT | Correction
  | SkillSuccess | SkillFailure | SkillPreference

datatype json =
  JNull | JBool bool | JNum real | JStr string | JArr "json list" | JObj "(string \<times> json) list"

record Clause =
  cid :: nat
  ctype :: ClauseType
  subject :: string
  predicate :: string
  object :: string
  natural_form :: string
  valid_from :: int
  valid_to :: "int option"
  recorded_at :: int
  confidence :: real
  decay_rate :: real
  reinforcement_count :: nat
  source_id :: string
  extraction_method :: string
  last_accessed :: int
  access_count :: nat
  tags :: "string list"
  metadata :: "(string \<times> json) list"

record ClauseInput =
  in_type :: ClauseType
  in_subject :: string
  in_predicate :: string
  in_object :: string
  in_natural_form :: string
  in_confidence :: "real option"
  in_decay_rate :: "real option"
  in_valid_from :: "int option"
  in_tags :: "string list option"
  in_metadata :: "(string \<times> json) list option"
  in_source_id :: "string option"
  in_extraction_method :: "string option"

datatype ConflictType = Contradiction | Supersession | Ambiguity

datatype ConflictStatus = Pending | AutoResolved | UserResolved | Ignored

record Conflict =
  conflict_id :: nat
  clause_a_id :: nat
  clause_b_id :: nat
  conflict_type :: ConflictType
  description :: string
  status :: ConflictStatus
  resolution :: "string option"
  resolved_at :: "int option"
  detected_at :: int

record DecayLogEntry =
  dl_id :: nat
  dl_clause_id :: nat
  previous_confidence :: real
  new_confidence :: real
  reason :: string
  occurred_at :: int

datatype AccessType = Retrieval | Injection | Reinforcement

record AccessLogEntry =
  al_id :: nat
  al_clause_id :: nat
  accessed_at :: int
  access_type :: AccessType
  al_context :: string
  was_useful :: "bool option"
  correction_id :: "nat option"

text \<open>A value of the \<open>system_metadata\<close> table: free text, or a timestamp rendered as text.\<close>

datatype MetaValue = MetaText string | MetaTime int

record Database =
  clauses :: "Clause list"
  conflicts :: "Conflict list"
  decay_log :: "DecayLogEntry list"
  access_log :: "AccessLogEntry list"
  system_metadata :: "string \<Rightarrow> MetaValue option"
  next_uuid :: nat

text \<open>
  What a call can throw: a violated CHECK constraint, a MATCH expression the full-text
  index rejects, the \<open>Error\<close> of an operation on a clause id that has no row, a
  \<open>TypeError\<close> of the runtime, and a failure of the embedding provider.
\<close>

datatype error =
  SqliteConstraint | SqliteMatchError | ClauseNotFound nat | TypeError | ProviderFailure

subsection \<open>The storage layer\<close>

definition uuidv7 :: "Database \<Rightarrow> nat \<times> Database" where
  "uuidv7 db = (next_uuid db, db\<lparr>next_uuid := Suc (next_uuid db)\<rparr>)"

text \<open>
  The CHECK constraints of table \<open>clauses\<close>:
  \<open>CHECK (confidence >= 0 AND confidence <= 1)\<close> and \<open>CHECK (decay_rate >= 0)\<close>.
  The CHECK on \<open>type\<close> holds by typing.
\<close>

definition check_clause :: "Clause \<Rightarrow> bool" where
  "check_clause c = (0 \<le> confidence c \<and> confidence c \<le> 1 \<and> 0 \<le> decay_rate c)"

definition insert_clause :: "Clause \<Rightarrow> Database \<Rightarrow> (error + unit) \<times> Database" where
  "insert_clause c db =
     (if check_clause c then (Inr (), db\<lparr>clauses := clauses db @ [c]\<rparr>)
      else (Inl SqliteConstraint, db))"

text \<open>
  \<open>UPDATE clauses SET ... WHERE ...\<close> for a statement that assigns no constrained
  column: SQLite does not re-evaluate a CHECK whose columns the statement leaves alone.
\<close>

definition update_clauses :: "(Clause \<Rightarrow> bool) \<Rightarrow> (Clause \<Rightarrow> Clause) \<Rightarrow> Database \<Rightarrow> Database" where
  "update_clauses wh st db = db\<lparr>clauses := map (\<lambda>c. if wh c then st c else c) (clauses db)\<rparr>"

text \<open>
  The same for a statement that assigns \<open>confidence\<close> or \<open>decay_rate\<close>: the statement
  aborts, changing nothing, when a row it would write violates a CHECK.
\<close>

definition update_clauses_checked ::
  "(Clause \<Rightarrow> bool) \<Rightarrow> (Clause \<Rightarrow> Clause) \<Rightarrow> Database \<Rightarrow> (error + unit) \<times> Database" where
  "update_clauses_checked wh st db =
     (if list_all (\<lambda>c. if wh c then check_clause (st c) else True) (clauses db)
      then (Inr (), update_clauses wh st db)
      else (Inl SqliteConstraint, db))"

definition getMetadata :: "string \<Rightarrow> Database \<Rightarrow> MetaValue option" where
  "getMetadata k db = system_metadata db k"

definition setMetadata :: "string \<Rightarrow> MetaValue \<Rightarrow> Database \<Rightarrow> Database" where
  "setMetadata k v db = db\<lparr>system_metadata := (system_metadata db)(k \<mapsto> v)\<rparr>"

text \<open>
  \<open>DELETE FROM clauses WHERE ...\<close>, the statement by which the pack loader removes the
  clauses of a pack (\<open>tags LIKE ?\<close>); the condition is a parameter.
\<close>

definition delete_clauses :: "(Clause \<Rightarrow> bool) \<Rightarrow> Database \<Rightarrow> Database" where
  "delete_clauses wh db = db\<lparr>clauses := filter (\<lambda>c. \<not> wh c) (clauses db)\<rparr>"

text \<open>SQLite's \<open>json_set(metadata, '$.key', value)\<close> on a JSON object, for a top-level key.\<close>

fun json_set :: "(string \<times> json) list \<Rightarrow> string \<Rightarrow> json \<Rightarrow> (string \<times> json) list" where
  "json_set [] k v = [(k, v)]"
| "json_set ((k', v') # kvs) k v = (if k' = k then (k, v) # kvs else (k', v') # json_set kvs k v)"

subsection \<open>Audit rows\<close>

definition logDecay :: "nat \<Rightarrow> real \<Rightarrow> real \<Rightarrow> string \<Rightarrow> int \<Rightarrow> Database \<Rightarrow> Database" where
  "logDecay clauseId previousConfidence newConfidence rsn now db =
     (let (i, db1) = uuidv7 db
      in db1\<lparr>decay_log := decay_log db1 @
           [\<lparr>dl_id = i, dl_clause_id = clauseId, previous_confidence = previousConfidence,
             new_confidence = newConfidence, reason = rsn, occurred_at = now\<rparr>]\<rparr>)"

definition logAccess :: "nat \<Rightarrow> AccessType \<Rightarrow> string \<Rightarrow> int \<Rightarrow> Database \<Rightarrow> Database" where
  "logAccess clauseId accessType ctx now db =
     (let (i, db1) = uuidv7 db
      in db1\<lparr>access_log := access_log db1 @
           [\<lparr>al_id = i, al_clause_id = clauseId, accessed_at = now, access_type = accessType,
             al_context = ctx, was_useful = None, correction_id = None\<rparr>]\<rparr>)"

subsection \<open>JavaScript strings and numbers\<close>

text \<open>
  Strings are lists of code units below 256 (ASCII and Latin-1). \<open>js_space\<close> is the
  class \<open>\s\<close> on such code units, which is also the white space \<open>trim\<close> and
  \<open>parseInt\<close> skip.
\<close>

definition js_space :: "char \<Rightarrow> bool" where
  "js_space c = ((of_char c :: nat) \<in> {9, 10, 11, 12, 13, 32, 160})"

definition toLowerChar :: "char \<Rightarrow> char" where
  "toLowerChar c =
     (let n = (of_char c :: nat)
      in if (65 \<le> n \<and> n \<le> 90) \<or> (192 \<le> n \<and> n \<le> 222 \<and> n \<noteq> 215)
         then char_of (n + 32) else c)"

definition toLowerCase :: "string \<Rightarrow> string" where
  "toLowerCase s = map toLowerChar s"

definition trim :: "string \<Rightarrow> string" where
  "trim s = rev (dropWhile js_space (rev (dropWhile js_space s)))"

text \<open>
  \<open>s.split(/\s+/)\<close>: the pieces between maximal runs of white space. A string that
  starts (ends) with white space yields an empty first (last) piece, and the empty string
  yields one empty piece. \<open>cur\<close> is the current piece, reversed; \<open>inws\<close> says that the
  previous code unit was white space.
\<close>

fun split_ws_from :: "string \<Rightarrow> string \<Rightarrow> bool \<Rightarrow> string list" where
  "split_ws_from [] cur inws = [rev cur]"
| "split_ws_from (c # cs) cur inws =
     (if js_space c
      then (if inws then split_ws_from cs cur True else rev cur # split_ws_from cs [] True)
      else split_ws_from cs (c # cur) False)"

definition split_ws :: "string \<Rightarrow> string list" where
  "split_ws s = split_ws_from s [] False"

text \<open>\<open>words.join(sep)\<close>.\<close>

fun join :: "string \<Rightarrow> string list \<Rightarrow> string" where
  "join sep [] = []"
| "join sep [w] = w"
| "join sep (w # v # ws) = w @ sep @ join sep (v # ws)"

text \<open>\<open>a.includes(b)\<close>: \<open>b\<close> occurs in \<open>a\<close> as a contiguous piece.\<close>

fun starts_with :: "string \<Rightarrow> string \<Rightarrow> bool" where
  "starts_with a [] = True"
| "starts_with [] (y # ys) = False"
| "starts_with (x # xs) (y # ys) = (x = y \<and> starts_with xs ys)"

fun js_includes :: "string \<Rightarrow> string \<Rightarrow> bool" where
  "js_includes [] b = (b = [])"
| "js_includes (x # xs) b = (starts_with (x # xs) b \<or> js_includes xs b)"

definition is_digit :: "char \<Rightarrow> bool" where
  "is_digit c = (48 \<le> (of_char c :: nat) \<and> (of_char c :: nat) \<le> 57)"

fun digits_val :: "string \<Rightarrow> nat \<Rightarrow> nat" where
  "digits_val [] acc = acc"
| "digits_val (c # cs) acc = digits_val cs (10 * acc + (of_char c - 48))"

text \<open>\<open>parseInt(s, 10)\<close>; \<open>None\<close> is NaN.\<close>

definition parseInt :: "string \<Rightarrow> int option" where
  "parseInt s =
     (let t = dropWhile js_space s;
          neg = (case t of [] \<Rightarrow> False | c # r \<Rightarrow> c = CHR ''-'');
          u = (case t of [] \<Rightarrow> [] | c # r \<Rightarrow> if c = CHR ''-'' \<or> c = CHR ''+'' then r else t);
          ds = takeWhile is_digit u
      in if ds = [] then None
         else Some (if neg then - int (digits_val ds 0) else int (digits_val ds 0)))"

definition digit_char :: "nat \<Rightarrow> char" where
  "digit_char d = char_of (48 + d)"

fun string_of_nat :: "nat \<Rightarrow> string" where
  "string_of_nat n =
     (if 10 \<le> n then string_of_nat (n div 10) @ [digit_char (n mod 10)] else [digit_char n])"

text \<open>\<open>String(n)\<close> for an integral number or NaN.\<close>

definition js_String :: "int option \<Rightarrow> string" where
  "js_String v =
     (case v of None \<Rightarrow> ''NaN''
      | Some n \<Rightarrow> if n < 0 then CHR ''-'' # string_of_nat (nat (- n)) else string_of_nat (nat n))"

text \<open>
  JSON values as JavaScript handles them. A metadata object is an association list in the
  order JavaScript enumerates the keys of the object: array-index keys first, in ascending
  order, then the other keys in the order they were added, no key twice.
  \<open>set_property\<close> is the assignment \<open>o[k] = v\<close> and \<open>spread a b\<close> the object
  \<open>{...a, ...b}\<close>.
\<close>

fun js_truthy :: "json \<Rightarrow> bool" where
  "js_truthy JNull = False"
| "js_truthy (JBool b) = b"
| "js_truthy (JNum x) = (x \<noteq> 0)"
| "js_truthy (JStr s) = (s \<noteq> [])"
| "js_truthy (JArr xs) = True"
| "js_truthy (JObj kvs) = True"

definition array_index :: "string \<Rightarrow> bool" where
  "array_index k =
     (k \<noteq> [] \<and> list_all is_digit k \<and> (length k = 1 \<or> hd k \<noteq> CHR ''0'')
      \<and> digits_val k 0 < 4294967295)"

fun set_property :: "(string \<times> json) list \<Rightarrow> string \<Rightarrow> json \<Rightarrow> (string \<times> json) list" where
  "set_property [] k v = [(k, v)]"
| "set_property ((k', v') # kvs) k v =
     (if k' = k then (k, v) # kvs
      else if array_index k \<and> (\<not> array_index k' \<or> digits_val k 0 < digits_val k' 0)
      then (k, v) # (k', v') # kvs
      else (k', v') # set_property kvs k v)"

definition spread :: "(string \<times> json) list \<Rightarrow> (string \<times> json) list \<Rightarrow> (string \<times> json) list" where
  "spread a b = foldl (\<lambda>obj kv. set_property obj (fst kv) (snd kv)) a b"

text \<open>
  The string an element of an array contributes to \<open>Array.prototype.toString\<close>. How
  the runtime prints a number is the parameter \<open>num\<close>.
\<close>

fun element_text :: "(real \<Rightarrow> string) \<Rightarrow> json \<Rightarrow> string" where
  "element_text num JNull = []"
| "element_text num (JBool b) = (if b then ''true'' else ''false'')"
| "element_text num (JNum x) = num x"
| "element_text num (JStr s) = s"
| "element_text num (JArr xs) = join '','' (map (element_text num) xs)"
| "element_text num (JObj kvs) = ''[object Object]''"

text \<open>
  \<open>(v || 0) + 1\<close> for a JSON value \<open>v\<close> or a missing one: a number is incremented,
  \<open>true\<close> counts as 1, and to a string, an array or an object the text \<open>1\<close> is appended.
\<close>

definition or_zero_plus_one :: "(real \<Rightarrow> string) \<Rightarrow> json option \<Rightarrow> json" where
  "or_zero_plus_one num v =
     (case v of
        None \<Rightarrow> JNum 1
      | Some x \<Rightarrow>
          if \<not> js_truthy x then JNum 1
          else (case x of
                  JNum n \<Rightarrow> JNum (n + 1)
                | JBool b \<Rightarrow> JNum 2
                | JStr s \<Rightarrow> JStr (s @ ''1'')
                | JArr xs \<Rightarrow> JStr (element_text num (JArr xs) @ ''1'')
                | JObj kvs \<Rightarrow> JStr ''[object Object]1''
                | JNull \<Rightarrow> JNum 1))"

text \<open>
  \<open>String(parseInt(getMetadata(key) ?? '0', 10) + 1)\<close> written back under \<open>key\<close>: the
  counters of \<open>create\<close> and \<open>createConflict\<close>. The counter keys hold text; a timestamp
  under such a key, which no code path writes, is read as NaN.
\<close>

definition bump_counter :: "string \<Rightarrow> Database \<Rightarrow> Database" where
  "bump_counter k db =
     (let current = (case getMetadata k db of
                       None \<Rightarrow> parseInt ''0''
                     | Some (MetaText s) \<Rightarrow> parseInt s
                     | Some (MetaTime t) \<Rightarrow> None)
      in setMetadata k (MetaText (js_String (map_option (\<lambda>n. n + 1) current))) db)"

section \<open>ClauseStore (clauses.ts)\<close>

definition SINGLETON_PREDICATES :: "string list" where
  "SINGLETON_PREDICATES =
     [''lives_in'', ''works_at'', ''email_address'', ''phone_number'', ''uses_for_notes'',
      ''preferred_language'', ''timezone'', ''full_name'', ''is_located_in'', ''home_address'',
      ''primary_calendar'']"

definition MULTI_VALUE_PREDICATES :: "string list" where
  "MULTI_VALUE_PREDICATES =
     [''likes'', ''dislikes'', ''interested_in'', ''skilled_at'', ''knows'', ''speaks_language'',
      ''has_hobby'', ''member_of'', ''integrates_with'', ''can_perform'']"

fun DEFAULT_DECAY_RATES :: "ClauseType \<Rightarrow> real" where
  "DEFAULT_DECAY_RATES Fact = 0.0005"
| "DEFAULT_DECAY_RATES Preference = 0.002"
| "DEFAULT_DECAY_RATES Habit = 0.001"
| "DEFAULT_DECAY_RATES Skill = 0.0002"
| "DEFAULT_DECAY_RATES Relationship = 0.001"
| "DEFAULT_DECAY_RATES Intention = 0.01"
| "DEFAULT_DECAY_RATES ContextT = 0.05"
| "DEFAULT_DECAY_RATES Correction = 0.001"
| "DEFAULT_DECAY_RATES SkillSuccess = 0.002"
| "DEFAULT_DECAY_RATES SkillFailure = 0.01"
| "DEFAULT_DECAY_RATES SkillPreference = 0.002"

datatype ConflictResolutionStrategy = NewestWins | HighestConfidence | MergeHistory | Manual

record ConflictResolutionConfig =
  strategy :: ConflictResolutionStrategy
  autoResolveThreshold :: real
  preserveHistory :: bool

datatype OnDuplicate = DupReinforce | DupSkip | DupMerge

record DeduplicationConfig =
  dd_enabled :: bool
  similarityThreshold :: real
  useContentHash :: bool
  useFuzzyMatch :: bool
  onDuplicate :: OnDuplicate


text \<open>
  \<open>create(input)\<close>: the clause object it builds, then the INSERT and the counter. The
  confidence is \<open>input.confidence ?? 0.8\<close>, passed to the INSERT as it is; the fallback
  \<open>?? 0.001\<close> of the decay rate is dead, the table having an entry for every type.
\<close>

definition new_clause :: "ClauseInput \<Rightarrow> int \<Rightarrow> nat \<Rightarrow> Clause" where
  "new_clause input now i =
     (let decayRate = (case in_decay_rate input of
                         Some r \<Rightarrow> r | None \<Rightarrow> DEFAULT_DECAY_RATES (in_type input))
      in \<lparr>cid = i, ctype = in_type input, subject = in_subject input,
          predicate = in_predicate input, object = in_object input,
          natural_form = in_natural_form input,
          valid_from = (case in_valid_from input of Some t \<Rightarrow> t | None \<Rightarrow> now),
          valid_to = None, recorded_at = now,
          confidence = (case in_confidence input of Some x \<Rightarrow> x | None \<Rightarrow> 0.8),
          decay_rate = decayRate, reinforcement_count = 0,
          source_id = (case in_source_id input of Some x \<Rightarrow> x | None \<Rightarrow> ''manual''),
          extraction_method =
            (case in_extraction_method input of Some x \<Rightarrow> x | None \<Rightarrow> ''manual''),
          last_accessed = now, access_count = 0,
          tags = (case in_tags input of Some x \<Rightarrow> x | None \<Rightarrow> []),
          metadata = (case in_metadata input of Some x \<Rightarrow> x | None \<Rightarrow> [])\<rparr>)"

definition create :: "ClauseInput \<Rightarrow> int \<Rightarrow> Database \<Rightarrow> (error + Clause) \<times> Database" where
  "create input now db =
     (let (i, db1) = uuidv7 db;
          clause = new_clause input now i
      in case insert_clause clause db1 of
           (Inl e, db2) \<Rightarrow> (Inl e, db2)
         | (Inr u, db2) \<Rightarrow> (Inr clause, bump_counter ''total_clauses_extracted'' db2))"

text \<open>\<open>get(id)\<close>: returns the row as read, then bumps its access tracking.\<close>

definition get :: "nat \<Rightarrow> int \<Rightarrow> Database \<Rightarrow> Clause option \<times> Database" where
  "get i now db =
     (case find (\<lambda>c. cid c = i) (clauses db) of
        None \<Rightarrow> (None, db)
      | Some row \<Rightarrow>
          (Some row,
           update_clauses (\<lambda>c. cid c = i)
             (\<lambda>c. c\<lparr>last_accessed := now, access_count := access_count c + 1\<rparr>) db))"

text \<open>
  \<open>update(id, updates)\<close>. Only the five allowed fields of \<open>updates\<close> are read; a field is
  \<open>Some\<close> when the key is present. The values go to the UPDATE as they are.
\<close>

record ClauseUpdates =
  up_confidence :: "real option"
  up_decay_rate :: "real option"
  up_tags :: "string list option"
  up_metadata :: "(string \<times> json) list option"
  up_natural_form :: "string option"

definition apply_updates :: "ClauseUpdates \<Rightarrow> Clause \<Rightarrow> Clause" where
  "apply_updates u c =
     c\<lparr>confidence := (case up_confidence u of Some x \<Rightarrow> x | None \<Rightarrow> confidence c),
       decay_rate := (case up_decay_rate u of Some x \<Rightarrow> x | None \<Rightarrow> decay_rate c),
       tags := (case up_tags u of Some x \<Rightarrow> x | None \<Rightarrow> tags c),
       metadata := (case up_metadata u of Some x \<Rightarrow> x | None \<Rightarrow> metadata c),
       natural_form := (case up_natural_form u of Some x \<Rightarrow> x | None \<Rightarrow> natural_form c)\<rparr>"

definition no_updates :: "ClauseUpdates \<Rightarrow> bool" where
  "no_updates u =
     (up_confidence u = None \<and> up_decay_rate u = None \<and> up_tags u = None
      \<and> up_metadata u = None \<and> up_natural_form u = None)"

definition update ::
  "nat \<Rightarrow> ClauseUpdates \<Rightarrow> int \<Rightarrow> Database \<Rightarrow> (error + Clause option) \<times> Database" where
  "update i updates now db =
     (case get i now db of
        (None, db1) \<Rightarrow> (Inr None, db1)
      | (Some existing, db1) \<Rightarrow>
          if no_updates updates then (Inr (Some existing), db1)
          else (case update_clauses_checked (\<lambda>c. cid c = i) (apply_updates updates) db1 of
                  (Inl e, db2) \<Rightarrow> (Inl e, db2)
                | (Inr u, db2) \<Rightarrow> (case get i now db2 of (r, db3) \<Rightarrow> (Inr r, db3))))"

text \<open>\<open>invalidate(id, reason)\<close>: one UPDATE, with no condition on \<open>valid_to\<close>.\<close>

definition invalidate :: "nat \<Rightarrow> string option \<Rightarrow> int \<Rightarrow> Database \<Rightarrow> Database" where
  "invalidate i rsn now db =
     update_clauses (\<lambda>c. cid c = i)
       (\<lambda>c. c\<lparr>valid_to := Some now,
              metadata := json_set (metadata c) ''invalidation_reason''
                            (JStr (case rsn of None \<Rightarrow> ''invalidated'' | Some r \<Rightarrow> r))\<rparr>)
       db"

text \<open>\<open>reinforce(id, amount)\<close>; the caller passes the default amount 0.05 explicitly.\<close>

definition reinforce :: "nat \<Rightarrow> real \<Rightarrow> int \<Rightarrow> Database \<Rightarrow> (error + unit) \<times> Database" where
  "reinforce i amount now db =
     (case get i now db of
        (None, db1) \<Rightarrow> (Inr (), db1)
      | (Some clause, db1) \<Rightarrow>
          let newConfidence = min 1 (confidence clause + amount)
          in (case update_clauses_checked (\<lambda>c. cid c = i)
                     (\<lambda>c. c\<lparr>confidence := newConfidence,
                            reinforcement_count := reinforcement_count c + 1,
                            last_accessed := now,
                            access_count := access_count c + 1\<rparr>) db1 of
                (Inl e, db2) \<Rightarrow> (Inl e, db2)
              | (Inr u, db2) \<Rightarrow>
                  (Inr (),
                   logAccess i Reinforcement ''successful_use'' now
                     (logDecay i (confidence clause) newConfidence ''reinforcement'' now db2))))"

datatype Relation = RelIdentical | RelSupersession | RelContradiction | RelCoexistent

definition analyzeRelation :: "Clause \<Rightarrow> ClauseInput \<Rightarrow> Relation" where
  "analyzeRelation old input =
     (if toLowerCase (object old) = toLowerCase (in_object input) then RelIdentical
      else if predicate old \<in> set SINGLETON_PREDICATES then RelSupersession
      else if predicate old \<in> set MULTI_VALUE_PREDICATES then RelCoexistent
      else RelContradiction)"

definition conflict_description :: "Clause \<Rightarrow> Clause \<Rightarrow> string" where
  "conflict_description clauseA clauseB =
     ''Conflicting values for '' @ subject clauseA @ ''.'' @ predicate clauseA @ '': ''
       @ [CHR 0x22] @ object clauseA @ [CHR 0x22] @ '' vs ''
       @ [CHR 0x22] @ object clauseB @ [CHR 0x22]"

definition createConflict :: "Clause \<Rightarrow> Clause \<Rightarrow> int \<Rightarrow> Database \<Rightarrow> Conflict \<times> Database" where
  "createConflict clauseA clauseB now db =
     (let (i, db1) = uuidv7 db;
          conflict =
            \<lparr>conflict_id = i, clause_a_id = cid clauseA, clause_b_id = cid clauseB,
             conflict_type = Contradiction,
             description = conflict_description clauseA clauseB,
             status = Pending, resolution = None, resolved_at = None, detected_at = now\<rparr>;
          db2 = db1\<lparr>conflicts := conflicts db1 @ [conflict]\<rparr>
      in (conflict, bump_counter ''total_conflicts_detected'' db2))"

datatype Action = Insert | Reinforced | Superseded | ConflictDetected | Skipped

record ProcessClauseResult =
  action :: Action
  pr_clause :: "Clause option"
  existingId :: "nat option"
  invalidatedId :: "nat option"
  pr_conflict :: "Conflict option"

definition process_result :: "Action \<Rightarrow> ProcessClauseResult" where
  "process_result a =
     \<lparr>action = a, pr_clause = None, existingId = None, invalidatedId = None,
      pr_conflict = None\<rparr>"

text \<open>
  \<open>processNewClause(input)\<close>. Every branch of the \<open>switch\<close> in the loop over
  \<open>existing\<close> returns, so the loop body runs for the first row only and the statements
  after the loop are never reached.
\<close>

definition processNewClause ::
  "ClauseInput \<Rightarrow> int \<Rightarrow> Database \<Rightarrow> (error + ProcessClauseResult) \<times> Database" where
  "processNewClause input now db =
     (let existing =
            filter (\<lambda>c. subject c = in_subject input \<and> predicate c = in_predicate input
                         \<and> valid_to c = None \<and> confidence c > 0.3) (clauses db)
      in case existing of
           [] \<Rightarrow>
             (case create input now db of
                (Inl e, db1) \<Rightarrow> (Inl e, db1)
              | (Inr clause, db1) \<Rightarrow>
                  (Inr ((process_result Insert)\<lparr>pr_clause := Some clause\<rparr>), db1))
         | old # others \<Rightarrow>
             (case analyzeRelation old input of
                RelIdentical \<Rightarrow>
                  (case reinforce (cid old) 0.05 now db of
                     (Inl e, db1) \<Rightarrow> (Inl e, db1)
                   | (Inr u, db1) \<Rightarrow>
                       (Inr ((process_result Reinforced)\<lparr>existingId := Some (cid old)\<rparr>), db1))
              | RelSupersession \<Rightarrow>
                  (case create input now (invalidate (cid old) (Some ''superseded'') now db) of
                     (Inl e, db1) \<Rightarrow> (Inl e, db1)
                   | (Inr clause, db1) \<Rightarrow>
                       (Inr ((process_result Superseded)
                               \<lparr>pr_clause := Some clause, invalidatedId := Some (cid old)\<rparr>), db1))
              | RelContradiction \<Rightarrow>
                  (case create input now db of
                     (Inl e, db1) \<Rightarrow> (Inl e, db1)
                   | (Inr newClause, db1) \<Rightarrow>
                       (case createConflict old newClause now db1 of
                          (conflict, db2) \<Rightarrow>
                            (Inr ((process_result ConflictDetected)
                                    \<lparr>pr_clause := Some newClause,
                                      pr_conflict := Some conflict\<rparr>), db2)))
              | RelCoexistent \<Rightarrow>
                  (case create input now db of
                     (Inl e, db1) \<Rightarrow> (Inl e, db1)
                   | (Inr coexistClause, db1) \<Rightarrow>
                       (Inr ((process_result Insert)\<lparr>pr_clause := Some coexistClause\<rparr>), db1))))"

subsection \<open>Conflict resolution\<close>

text \<open>
  \<open>resolveConflict(conflictId, strategy)\<close>. Clause ids are printed as the decimal
  numeral of the counter value. \<open>metadata.supersedes = metadata.supersedes || []\<close>
  followed by \<open>push\<close> throws a \<open>TypeError\<close> when the key holds a truthy value that is
  not an array; the losing clause is invalidated by then and the conflict stays pending.
\<close>

record ResolveResult =
  resolved :: bool
  rs_action :: string
  keptClauseId :: "nat option"

definition mark_resolved :: "nat \<Rightarrow> string \<Rightarrow> int \<Rightarrow> Database \<Rightarrow> Database" where
  "mark_resolved conflictId res now db =
     db\<lparr>conflicts :=
          map (\<lambda>c. if conflict_id c = conflictId
                    then c\<lparr>status := AutoResolved, resolution := Some res, resolved_at := Some now\<rparr>
                    else c) (conflicts db)\<rparr>"

definition supersedes_push :: "(string \<times> json) list \<Rightarrow> nat \<Rightarrow> (string \<times> json) list option" where
  "supersedes_push md i =
     (case (case map_of md ''supersedes'' of
              None \<Rightarrow> JArr []
            | Some v \<Rightarrow> if js_truthy v then v else JArr []) of
        JArr xs \<Rightarrow> Some (set_property md ''supersedes'' (JArr (xs @ [JStr (string_of_nat i)])))
      | _ \<Rightarrow> None)"

definition resolveConflict ::
  "ConflictResolutionConfig \<Rightarrow> nat \<Rightarrow> ConflictResolutionStrategy option \<Rightarrow> int \<Rightarrow> Database
     \<Rightarrow> (error + ResolveResult) \<times> Database" where
  "resolveConflict cfg conflictId strat now db =
     (let useStrategy = (case strat of Some s \<Rightarrow> s | None \<Rightarrow> strategy cfg);
          unresolved = \<lparr>resolved = False, rs_action = ''not_found_or_already_resolved'',
                        keptClauseId = None\<rparr>
      in case find (\<lambda>c. conflict_id c = conflictId) (conflicts db) of
           None \<Rightarrow> (Inr unresolved, db)
         | Some conflict \<Rightarrow>
             if status conflict \<noteq> Pending then (Inr unresolved, db)
             else
               (case get (clause_a_id conflict) now db of
                  (clauseA, db1) \<Rightarrow>
                    (case get (clause_b_id conflict) now db1 of
                       (clauseB, db2) \<Rightarrow>
                         (case (clauseA, clauseB) of
                            (Some a, Some b) \<Rightarrow>
                              if useStrategy = Manual
                              then (Inr \<lparr>resolved = False,
                                         rs_action = ''requires_manual_resolution'',
                                         keptClauseId = None\<rparr>, db2)
                              else
                                let aWins = (if useStrategy = HighestConfidence
                                             then confidence a \<ge> confidence b
                                             else recorded_at a > recorded_at b);
                                    kept = (if aWins then a else b);
                                    lost = (if aWins then b else a);
                                    res = (case useStrategy of
                                             NewestWins \<Rightarrow>
                                               ''newest_wins: kept '' @ string_of_nat (cid kept)
                                           | HighestConfidence \<Rightarrow>
                                               ''highest_confidence: kept ''
                                                 @ string_of_nat (cid kept)
                                           | _ \<Rightarrow>
                                               ''merge_history: kept '' @ string_of_nat (cid kept)
                                                 @ '', archived '' @ string_of_nat (cid lost));
                                    db3 = invalidate (cid lost)
                                            (Some (''superseded_by:'' @ string_of_nat (cid kept)))
                                            now db2;
                                    done = (\<lambda>d. (Inr \<lparr>resolved = True, rs_action = res,
                                                       keptClauseId = Some (cid kept)\<rparr>,
                                                  mark_resolved conflictId res now d))
                                in if preserveHistory cfg
                                   then (case supersedes_push (metadata kept) (cid lost) of
                                           None \<Rightarrow> (Inl TypeError, db3)
                                         | Some md \<Rightarrow>
                                             (case update (cid kept)
                                                     \<lparr>up_confidence = None, up_decay_rate = None,
                                                      up_tags = None, up_metadata = Some md,
                                                      up_natural_form = None\<rparr> now db3 of
                                                (Inl e, db4) \<Rightarrow> (Inl e, db4)
                                              | (Inr u, db4) \<Rightarrow> done db4))
                                   else done db3
                          | _ \<Rightarrow>
                              (Inr \<lparr>resolved = True, rs_action = ''clause_deleted'',
                                    keptClauseId =
                                      (case clauseA of
                                         Some a \<Rightarrow> Some (cid a)
                                       | None \<Rightarrow> map_option cid clauseB)\<rparr>,
                               mark_resolved conflictId ''clause_deleted'' now db2)))))"

text \<open>
  \<open>resolveAllConflicts(strategy)\<close>: the pending conflicts, latest detected first, each
  resolved inside \<open>try\<close>; a call that throws is counted and the loop goes on from the
  state the call left.
\<close>

record ResolveAllResult =
  ra_resolved :: nat
  ra_skipped :: nat
  ra_errors :: nat

fun resolve_loop ::
  "ConflictResolutionConfig \<Rightarrow> ConflictResolutionStrategy option \<Rightarrow> int \<Rightarrow> nat list
     \<Rightarrow> ResolveAllResult \<Rightarrow> Database \<Rightarrow> ResolveAllResult \<times> Database" where
  "resolve_loop cfg strat now [] counts db = (counts, db)"
| "resolve_loop cfg strat now (i # ids) counts db =
     (case resolveConflict cfg i strat now db of
        (Inl e, db1) \<Rightarrow>
          resolve_loop cfg strat now ids (counts\<lparr>ra_errors := ra_errors counts + 1\<rparr>) db1
      | (Inr result, db1) \<Rightarrow>
          resolve_loop cfg strat now ids
            (if resolved result then counts\<lparr>ra_resolved := ra_resolved counts + 1\<rparr>
             else counts\<lparr>ra_skipped := ra_skipped counts + 1\<rparr>) db1)"

definition getPendingConflicts :: "Database \<Rightarrow> Conflict list" where
  "getPendingConflicts db =
     sort_key (\<lambda>c. - detected_at c) (filter (\<lambda>c. status c = Pending) (conflicts db))"

definition resolveAllConflicts ::
  "ConflictResolutionConfig \<Rightarrow> ConflictResolutionStrategy option \<Rightarrow> int \<Rightarrow> Database
     \<Rightarrow> ResolveAllResult \<times> Database" where
  "resolveAllConflicts cfg strat now db =
     resolve_loop cfg strat now (map conflict_id (getPendingConflicts db))
       \<lparr>ra_resolved = 0, ra_skipped = 0, ra_errors = 0\<rparr> db"

subsection \<open>Deduplication\<close>

text \<open>
  The words of \<open>calculateSimilarity\<close>:
  \<open>new Set(a.toLowerCase().split(/\s+/).filter(w => w.length > 2))\<close>, a set kept as a
  list without repetitions, in insertion order.
\<close>

definition similarity_words :: "string \<Rightarrow> string list" where
  "similarity_words a = remdups (filter (\<lambda>w. length w > 2) (split_ws (toLowerCase a)))"

definition calculateSimilarity :: "string \<Rightarrow> string \<Rightarrow> real" where
  "calculateSimilarity a b =
     (let wordsA = similarity_words a;
          wordsB = similarity_words b
      in if wordsA = [] \<and> wordsB = [] then 1
         else if wordsA = [] \<or> wordsB = [] then 0
         else real (length (filter (\<lambda>x. x \<in> set wordsB) wordsA))
                / real (length (remdups (wordsA @ wordsB))))"

text \<open>
  The full-text index (SQLite FTS5) is a collaborator outside the repository. It is a
  parameter: given the MATCH expression and the indexed rows, it tells for a row whether
  the row matches and, if so, its \<open>bm25\<close> score.
\<close>

type_synonym TextIndex = "string \<Rightarrow> Clause list \<Rightarrow> Clause \<Rightarrow> real option"

text \<open>
  What SQLite answers to the queries of the clause store and the retriever and the row
  model does not hold:
  \<^item> whether FTS5 accepts a MATCH expression; a statement whose expression it rejects
    throws, and neither the clause store nor the retriever catches it;
  \<^item> for an accepted expression, the rows it matches and their \<open>bm25\<close> scores;
  \<^item> the text in a row's \<open>last_accessed\<close> column, which \<open>ORDER BY\<close> compares as text:
    an ISO-8601 string where \<open>create\<close> wrote it, the format of \<open>datetime('now')\<close> where
    an access wrote it.
\<close>

record Sqlite =
  match_accepts :: "string \<Rightarrow> bool"
  match_rows :: TextIndex
  last_accessed_text :: "Clause \<Rightarrow> string"

datatype MatchType = ExactMatch | HashMatch | FuzzyMatch | NoMatch

record DuplicateResult =
  found :: bool
  dup_clause :: "Clause option"
  similarity :: real
  matchType :: MatchType

definition no_duplicate :: DuplicateResult where
  "no_duplicate = \<lparr>found = False, dup_clause = None, similarity = 0, matchType = NoMatch\<rparr>"

text \<open>The MATCH expression \<open>findDuplicate\<close> builds from the candidate's natural form.\<close>

definition duplicate_fts_query :: "string \<Rightarrow> string" where
  "duplicate_fts_query nf =
     join '' ''
       (take 5 (split_ws (trim
          (map (\<lambda>c. if c \<in> {CHR 0x27, CHR 0x22, CHR ''('', CHR '')''} then CHR '' '' else c) nf))))"

text \<open>
  The two loops of \<open>findDuplicate\<close> return the first row whose similarity reaches the
  threshold.
\<close>

definition first_similar :: "real \<Rightarrow> string \<Rightarrow> Clause list \<Rightarrow> DuplicateResult option" where
  "first_similar threshold nf rows =
     (case find (\<lambda>c. calculateSimilarity (natural_form c) nf \<ge> threshold) rows of
        None \<Rightarrow> None
      | Some clause \<Rightarrow>
          Some \<lparr>found = True, dup_clause = Some clause,
                similarity = calculateSimilarity (natural_form clause) nf,
                matchType = FuzzyMatch\<rparr>)"

definition exact_rows :: "ClauseInput \<Rightarrow> Database \<Rightarrow> Clause list" where
  "exact_rows input db =
     filter (\<lambda>c. valid_to c = None \<and> subject c = in_subject input
                  \<and> predicate c = in_predicate input \<and> object c = in_object input) (clauses db)"

definition fuzzy_rows :: "ClauseInput \<Rightarrow> Database \<Rightarrow> Clause list" where
  "fuzzy_rows input db =
     filter (\<lambda>c. valid_to c = None \<and> subject c = in_subject input
                  \<and> predicate c = in_predicate input \<and> confidence c > 0.3) (clauses db)"

definition fts_rows :: "TextIndex \<Rightarrow> ClauseInput \<Rightarrow> Database \<Rightarrow> Clause list" where
  "fts_rows fts input db =
     take 5 (filter (\<lambda>c. fts (duplicate_fts_query (in_natural_form input)) (clauses db) c \<noteq> None
                          \<and> valid_to c = None) (clauses db))"

definition findDuplicate ::
  "DeduplicationConfig \<Rightarrow> TextIndex \<Rightarrow> ClauseInput \<Rightarrow> Database \<Rightarrow> DuplicateResult" where
  "findDuplicate cfg fts input db =
     (if \<not> dd_enabled cfg then no_duplicate
      else if useContentHash cfg \<and> exact_rows input db \<noteq> []
      then \<lparr>found = True, dup_clause = Some (hd (exact_rows input db)), similarity = 1,
            matchType = ExactMatch\<rparr>
      else if useFuzzyMatch cfg
      then (case first_similar (similarityThreshold cfg) (in_natural_form input)
                   (fuzzy_rows input db) of
              Some r \<Rightarrow> r
            | None \<Rightarrow>
                (case first_similar (similarityThreshold cfg) (in_natural_form input)
                        (fts_rows fts input db) of
                   Some r \<Rightarrow> r
                 | None \<Rightarrow> no_duplicate))
      else no_duplicate)"

text \<open>
  \<open>processWithDeduplication(input)\<close>. \<open>findDuplicate\<close> executes its MATCH statement
  when deduplication and fuzzy matching are on and neither the exact check nor the rows
  of the same subject and predicate gave a duplicate; the statement throws when the index
  rejects the expression, before anything is written.
\<close>

definition findDuplicate_runs_match :: "DeduplicationConfig \<Rightarrow> ClauseInput \<Rightarrow> Database \<Rightarrow> bool" where
  "findDuplicate_runs_match cfg input db =
     (dd_enabled cfg \<and> \<not> (useContentHash cfg \<and> exact_rows input db \<noteq> []) \<and> useFuzzyMatch cfg
      \<and> first_similar (similarityThreshold cfg) (in_natural_form input) (fuzzy_rows input db)
          = None)"

definition processWithDeduplication ::
  "DeduplicationConfig \<Rightarrow> Sqlite \<Rightarrow> (real \<Rightarrow> string) \<Rightarrow> ClauseInput \<Rightarrow> int \<Rightarrow> Database
     \<Rightarrow> (error + ProcessClauseResult) \<times> Database" where
  "processWithDeduplication cfg sq num input now db =
     (if findDuplicate_runs_match cfg input db
         \<and> \<not> match_accepts sq (duplicate_fts_query (in_natural_form input))
      then (Inl SqliteMatchError, db)
      else
        let dupCheck = findDuplicate cfg (match_rows sq) input db
        in case (if found dupCheck then dup_clause dupCheck else None) of
             None \<Rightarrow> processNewClause input now db
           | Some dup \<Rightarrow>
               (case onDuplicate cfg of
                  DupReinforce \<Rightarrow>
                    (case reinforce (cid dup) 0.05 now db of
                       (Inl e, db1) \<Rightarrow> (Inl e, db1)
                     | (Inr u, db1) \<Rightarrow>
                         (Inr ((process_result Reinforced)
                                 \<lparr>existingId := Some (cid dup), pr_clause := Some dup\<rparr>), db1))
                | DupSkip \<Rightarrow>
                    (Inr ((process_result Skipped)\<lparr>existingId := Some (cid dup)\<rparr>), db)
                | DupMerge \<Rightarrow>
                    let mergedMetadata =
                          set_property
                            (spread (metadata dup)
                               (case in_metadata input of Some m \<Rightarrow> m | None \<Rightarrow> []))
                            ''merge_count''
                            (or_zero_plus_one num (map_of (metadata dup) ''merge_count''))
                    in (case update (cid dup)
                               \<lparr>up_confidence = None, up_decay_rate = None, up_tags = None,
                                up_metadata = Some mergedMetadata, up_natural_form = None\<rparr>
                               now db of
                          (Inl e, db1) \<Rightarrow> (Inl e, db1)
                        | (Inr u, db1) \<Rightarrow>
                            (case reinforce (cid dup) 0.03 now db1 of
                               (Inl e, db2) \<Rightarrow> (Inl e, db2)
                             | (Inr u2, db2) \<Rightarrow>
                                 (Inr ((process_result Reinforced)
                                         \<lparr>existingId := Some (cid dup),
                                           pr_clause := Some dup\<rparr>), db2)))))"



section \<open>DecayRunner (decay.ts)\<close>

record DecayConfig =
  dc_enabled :: bool
  defaultRate :: real
  minConfidence :: real

record DecayReport =
  processed :: nat
  decayed :: nat
  archived :: nat
  reinforced :: nat
  timestamp :: int

definition empty_report :: "int \<Rightarrow> DecayReport" where
  "empty_report now = \<lparr>processed = 0, decayed = 0, archived = 0, reinforced = 0, timestamp = now\<rparr>"

text \<open>
  \<open>archiveClause(clauseId, finalConfidence)\<close>: the UPDATE, then a read of the row's
  confidence (already the final one), logged as previous and as new confidence.
\<close>

definition archiveClause :: "nat \<Rightarrow> real \<Rightarrow> int \<Rightarrow> Database \<Rightarrow> (error + unit) \<times> Database" where
  "archiveClause clauseId finalConfidence now db =
     (case update_clauses_checked (\<lambda>c. cid c = clauseId)
             (\<lambda>c. c\<lparr>valid_to := Some now, confidence := finalConfidence,
                    metadata := json_set (metadata c) ''archived_reason''
                                  (JStr ''confidence_decay'')\<rparr>) db of
        (Inl e, db1) \<Rightarrow> (Inl e, db1)
      | (Inr u, db1) \<Rightarrow>
          (case find (\<lambda>c. cid c = clauseId) (clauses db1) of
             None \<Rightarrow> (Inr (), db1)
           | Some clause \<Rightarrow>
               (Inr (), logDecay clauseId (confidence clause) finalConfidence
                          ''archived_decay'' now db1)))"

definition applyDecay :: "nat \<Rightarrow> real \<Rightarrow> real \<Rightarrow> int \<Rightarrow> Database \<Rightarrow> (error + unit) \<times> Database" where
  "applyDecay clauseId oldConfidence newConfidence now db =
     (case update_clauses_checked (\<lambda>c. cid c = clauseId)
             (\<lambda>c. c\<lparr>confidence := newConfidence\<rparr>) db of
        (Inl e, db1) \<Rightarrow> (Inl e, db1)
      | (Inr u, db1) \<Rightarrow>
          (Inr (), logDecay clauseId oldConfidence newConfidence ''scheduled_decay'' now db1))"

text \<open>The confidence the batch computes for one row.\<close>

definition decayed_confidence :: "int \<Rightarrow> Clause \<Rightarrow> real" where
  "decayed_confidence now clause =
     (let daysSinceAccess =
            max 0 (real_of_int (now - last_accessed clause) / (1000 * 60 * 60 * 24));
          timeFactor = daysSinceAccess / 30;
          effectiveDecayRate =
            decay_rate clause / (1 + ln (real (reinforcement_count clause) + 1));
          decayAmount = confidence clause * effectiveDecayRate * timeFactor
      in max 0 (confidence clause - decayAmount))"

text \<open>The loop of \<open>run\<close> over the rows selected before it starts.\<close>

fun run_loop ::
  "bool \<Rightarrow> DecayConfig \<Rightarrow> int \<Rightarrow> Clause list \<Rightarrow> DecayReport \<Rightarrow> Database
     \<Rightarrow> (error + DecayReport) \<times> Database" where
  "run_loop dryRun cfg now [] report db = (Inr report, db)"
| "run_loop dryRun cfg now (clause # rest) report db =
     (let report1 = report\<lparr>processed := processed report + 1\<rparr>;
          newConfidence = decayed_confidence now clause
      in if newConfidence < minConfidence cfg
         then (if \<not> dryRun
               then (case archiveClause (cid clause) newConfidence now db of
                       (Inl e, db1) \<Rightarrow> (Inl e, db1)
                     | (Inr u, db1) \<Rightarrow>
                         run_loop dryRun cfg now rest
                           (report1\<lparr>archived := archived report1 + 1\<rparr>) db1)
               else run_loop dryRun cfg now rest
                      (report1\<lparr>archived := archived report1 + 1\<rparr>) db)
         else if newConfidence < confidence clause - 0.001
         then (if \<not> dryRun
               then (case applyDecay (cid clause) (confidence clause) newConfidence now db of
                       (Inl e, db1) \<Rightarrow> (Inl e, db1)
                     | (Inr u, db1) \<Rightarrow>
                         run_loop dryRun cfg now rest
                           (report1\<lparr>decayed := decayed report1 + 1\<rparr>) db1)
               else run_loop dryRun cfg now rest
                      (report1\<lparr>decayed := decayed report1 + 1\<rparr>) db)
         else run_loop dryRun cfg now rest report1 db)"

definition run :: "bool \<Rightarrow> DecayConfig \<Rightarrow> int \<Rightarrow> Database \<Rightarrow> (error + DecayReport) \<times> Database" where
  "run dryRun cfg now db =
     (if \<not> dc_enabled cfg \<and> \<not> dryRun then (Inr (empty_report now), db)
      else
        let rows = filter (\<lambda>c. valid_to c = None \<and> confidence c > minConfidence cfg)
                     (clauses db)
        in case run_loop dryRun cfg now rows (empty_report now) db of
             (Inl e, db1) \<Rightarrow> (Inl e, db1)
           | (Inr report, db1) \<Rightarrow>
               (Inr report,
                if \<not> dryRun then setMetadata ''last_decay_run'' (MetaTime now) db1 else db1))"

text \<open>
  The runner's own \<open>reinforce(clauseId, amount)\<close>: it throws for an id without a row,
  logs the reinforcement in \<open>decay_log\<close> and returns the new confidence.
\<close>

definition reinforce_DecayRunner ::
  "nat \<Rightarrow> real \<Rightarrow> int \<Rightarrow> Database \<Rightarrow> (error + real) \<times> Database" where
  "reinforce_DecayRunner clauseId amount now db =
     (case find (\<lambda>c. cid c = clauseId) (clauses db) of
        None \<Rightarrow> (Inl (ClauseNotFound clauseId), db)
      | Some clause \<Rightarrow>
          let newConfidence = min 1 (confidence clause + amount)
          in (case update_clauses_checked (\<lambda>c. cid c = clauseId)
                     (\<lambda>c. c\<lparr>confidence := newConfidence,
                            reinforcement_count := reinforcement_count c + 1,
                            last_accessed := now,
                            access_count := access_count c + 1\<rparr>) db of
                (Inl e, db1) \<Rightarrow> (Inl e, db1)
              | (Inr u, db1) \<Rightarrow>
                  (Inr newConfidence,
                   logDecay clauseId (confidence clause) newConfidence ''reinforcement'' now db1)))"

definition adjustConfidence ::
  "DecayConfig \<Rightarrow> nat \<Rightarrow> real \<Rightarrow> string \<Rightarrow> int \<Rightarrow> Database \<Rightarrow> (error + unit) \<times> Database" where
  "adjustConfidence cfg clauseId newConfidence rsn now db =
     (case find (\<lambda>c. cid c = clauseId) (clauses db) of
        None \<Rightarrow> (Inl (ClauseNotFound clauseId), db)
      | Some clause \<Rightarrow>
          let clamped = max 0 (min 1 newConfidence)
          in (case update_clauses_checked (\<lambda>c. cid c = clauseId)
                     (\<lambda>c. c\<lparr>confidence := clamped\<rparr>) db of
                (Inl e, db1) \<Rightarrow> (Inl e, db1)
              | (Inr u, db1) \<Rightarrow>
                  let db2 = logDecay clauseId (confidence clause) clamped rsn now db1
                  in if clamped < minConfidence cfg
                     then archiveClause clauseId clamped now db2
                     else (Inr (), db2)))"

text \<open>
  What the batch does to one selected row, and the rows it selects: the statement of the
  loop's effect used by the theorems below.
\<close>

definition decay_row :: "DecayConfig \<Rightarrow> int \<Rightarrow> Clause \<Rightarrow> Clause" where
  "decay_row cfg now c =
     (let n = decayed_confidence now c
      in if n < minConfidence cfg
         then c\<lparr>valid_to := Some now, confidence := n,
                metadata := json_set (metadata c) ''archived_reason'' (JStr ''confidence_decay'')\<rparr>
         else if n < confidence c - 0.001 then c\<lparr>confidence := n\<rparr>
         else c)"

definition selected :: "DecayConfig \<Rightarrow> Database \<Rightarrow> Clause list" where
  "selected cfg db = filter (\<lambda>c. valid_to c = None \<and> confidence c > minConfidence cfg) (clauses db)"

definition archives :: "DecayConfig \<Rightarrow> int \<Rightarrow> Clause \<Rightarrow> bool" where
  "archives cfg now r = (decayed_confidence now r < minConfidence cfg)"

definition decays :: "DecayConfig \<Rightarrow> int \<Rightarrow> Clause \<Rightarrow> bool" where
  "decays cfg now r = (\<not> decayed_confidence now r < minConfidence cfg
      \<and> decayed_confidence now r < confidence r - 0.001)"

text \<open>
  The columns of a \<open>decay_log\<close> row other than its id, and the rows the batch writes for
  one selected row: an archived row is logged after its UPDATE, with the final confidence
  in both columns.
\<close>

definition log_fields :: "DecayLogEntry \<Rightarrow> nat \<times> real \<times> real \<times> string \<times> int" where
  "log_fields e =
     (dl_clause_id e, previous_confidence e, new_confidence e, reason e, occurred_at e)"

definition batch_log :: "DecayConfig \<Rightarrow> int \<Rightarrow> Clause \<Rightarrow> (nat \<times> real \<times> real \<times> string \<times> int) list" where
  "batch_log cfg now r =
     (let n = decayed_confidence now r
      in if n < minConfidence cfg then [(cid r, n, n, ''archived_decay'', now)]
         else if n < confidence r - 0.001 then [(cid r, confidence r, n, ''scheduled_decay'', now)]
         else [])"

text \<open>Decay runs at the given times, one after the other, with nothing in between.\<close>

fun run_many :: "DecayConfig \<Rightarrow> int list \<Rightarrow> Database \<Rightarrow> Database" where
  "run_many cfg [] db = db"
| "run_many cfg (t # ts) db = run_many cfg ts (snd (run False cfg t db))"

section \<open>Retriever (retrieval.ts)\<close>

record RetrievalConfig =
  semanticWeight :: real
  keywordWeight :: real
  recencyWeight :: real
  defaultLimit :: nat
  useLLMQueryRewriting :: bool

record RetrievalOptions =
  ro_types :: "ClauseType list option"
  ro_minConfidence :: "real option"
  ro_includeExpired :: "bool option"
  ro_limit :: "nat option"
  ro_boostRecent :: "bool option"
  ro_semanticWeight :: "real option"
  ro_keywordWeight :: "real option"

text \<open>
  The embedding collaborator (embeddings.ts and the provider behind it): the number of
  dimensions of its provider, and \<open>findSimilar(query, {limit, minSimilarity})\<close>, which
  answers with pairs of clause id and similarity or throws (a remote provider throws on
  an HTTP error, and nothing in \<open>findSimilar\<close> catches it).
\<close>

record EmbeddingManager =
  dimensions :: nat
  findSimilar :: "string \<Rightarrow> nat \<Rightarrow> real \<Rightarrow> Database \<Rightarrow> error + (nat \<times> real) list"

record Retriever =
  rt_config :: RetrievalConfig
  embeddingManager :: "EmbeddingManager option"

record ScoredClause =
  sc_clause :: Clause
  score :: real

datatype RetrievalMethod = SemanticMethod | KeywordMethod | HybridMethod

record RetrievalResult =
  rr_clauses :: "ScoredClause list"
  totalMatches :: nat
  retrievalMethod :: RetrievalMethod

definition isSemanticSearchAvailable :: "Retriever \<Rightarrow> bool" where
  "isSemanticSearchAvailable r =
     (case embeddingManager r of None \<Rightarrow> False | Some m \<Rightarrow> dimensions m > 0)"

text \<open>\<open>s.split(' ')\<close>: the pieces between the occurrences of the separator, empty ones kept.\<close>

fun split_on_from :: "char \<Rightarrow> string \<Rightarrow> string \<Rightarrow> string list" where
  "split_on_from sep [] cur = [rev cur]"
| "split_on_from sep (c # cs) cur =
     (if c = sep then rev cur # split_on_from sep cs [] else split_on_from sep cs (c # cur))"

definition split_on :: "char \<Rightarrow> string \<Rightarrow> string list" where
  "split_on sep s = split_on_from sep s []"

text \<open>\<open>s.replace(/\s+/g, ' ')\<close>: every maximal run of white space becomes one space.\<close>

fun collapse_ws_from :: "string \<Rightarrow> bool \<Rightarrow> string" where
  "collapse_ws_from [] inws = []"
| "collapse_ws_from (c # cs) inws =
     (if js_space c
      then (if inws then collapse_ws_from cs True else CHR '' '' # collapse_ws_from cs True)
      else c # collapse_ws_from cs False)"

definition collapse_ws :: "string \<Rightarrow> string" where
  "collapse_ws s = collapse_ws_from s False"

definition fts_special :: "char \<Rightarrow> bool" where
  "fts_special c =
     (c \<in> {CHR 0x27, CHR 0x22, CHR ''('', CHR '')'', CHR ''{'', CHR ''}'', CHR ''['', CHR '']'',
            CHR '':'', CHR ''*'', CHR ''^'', CHR ''~''})"

definition prepareFtsQuery :: "string \<Rightarrow> string" where
  "prepareFtsQuery query =
     (let clean = map (\<lambda>c. if fts_special c then CHR '' '' else c) query;
          clean2 = trim (collapse_ws clean);
          ws = filter (\<lambda>w. length w > 1) (split_on CHR '' '' clean2)
      in if length ws = 0 then ''*''
         else if length ws = 1 then hd ws @ ''*''
         else join '' OR '' ws)"

text \<open>The order of the collation BINARY on texts: code unit by code unit, a prefix first.\<close>

fun text_less :: "string \<Rightarrow> string \<Rightarrow> bool" where
  "text_less [] [] = False"
| "text_less [] (y # ys) = True"
| "text_less (x # xs) [] = False"
| "text_less (x # xs) (y # ys) =
     ((of_char x :: nat) < of_char y \<or> (x = y \<and> text_less xs ys))"

text \<open>
  \<open>ORDER BY\<close> for a relation that says which of two rows goes first; rows neither of
  which goes first keep the order of the table.
\<close>

fun insert_row :: "('a \<Rightarrow> 'a \<Rightarrow> bool) \<Rightarrow> 'a \<Rightarrow> 'a list \<Rightarrow> 'a list" where
  "insert_row first x [] = [x]"
| "insert_row first x (y # ys) =
     (if first y x then y # insert_row first x ys else x # y # ys)"

definition order_by :: "('a \<Rightarrow> 'a \<Rightarrow> bool) \<Rightarrow> 'a list \<Rightarrow> 'a list" where
  "order_by first xs = foldr (insert_row first) xs []"

definition type_filter :: "ClauseType list option \<Rightarrow> Clause \<Rightarrow> bool" where
  "type_filter ts c =
     (case ts of None \<Rightarrow> True | Some l \<Rightarrow> if length l > 0 then ctype c \<in> set l else True)"

text \<open>
  \<open>keywordSearch\<close>: rows paired with their \<open>score\<close> column. Without a query the rows are
  ordered by \<open>confidence DESC, last_accessed DESC\<close> and their score is 1.0; with a query
  they are the rows the MATCH expression matches, ordered by ascending \<open>bm25\<close> score, and
  the statement throws when the expression is rejected.
\<close>

definition keywordSearch ::
  "Sqlite \<Rightarrow> string \<Rightarrow> ClauseType list option \<Rightarrow> real \<Rightarrow> bool \<Rightarrow> nat \<Rightarrow> Database
     \<Rightarrow> error + (Clause \<times> real) list" where
  "keywordSearch sq query ts minConf includeExpired lmt db =
     (if query = [] \<or> trim query = []
      then
        Inr (map (\<lambda>c. (c, 1))
          (take lmt
            (order_by
               (\<lambda>a b. confidence a > confidence b
                  \<or> (confidence a = confidence b
                      \<and> text_less (last_accessed_text sq b) (last_accessed_text sq a)))
               (filter (\<lambda>c. confidence c \<ge> minConf \<and> (includeExpired \<or> valid_to c = None)
                            \<and> type_filter ts c) (clauses db)))))
      else if \<not> match_accepts sq (prepareFtsQuery query) then Inl SqliteMatchError
      else
        Inr (take lmt
          (sort_key snd
            (concat (map (\<lambda>c. case match_rows sq (prepareFtsQuery query) (clauses db) c of
                                 None \<Rightarrow> []
                               | Some sc \<Rightarrow>
                                   if confidence c \<ge> minConf \<and> (includeExpired \<or> valid_to c = None)
                                      \<and> type_filter ts c
                                   then [(c, sc)] else [])
                         (clauses db))))))"

text \<open>An entry of the map \<open>clauseScores\<close> of \<open>mergeAndScore\<close>, keyed by clause id.\<close>

record ScoreEntry =
  se_clause :: Clause
  keywordScore :: real
  semanticScore :: real

text \<open>\<open>Map.set\<close>: a present key keeps its place, a new key goes last.\<close>

fun map_set :: "(nat \<times> ScoreEntry) list \<Rightarrow> nat \<Rightarrow> ScoreEntry \<Rightarrow> (nat \<times> ScoreEntry) list" where
  "map_set [] k v = [(k, v)]"
| "map_set ((k', v') # m) k v = (if k' = k then (k, v) # m else (k', v') # map_set m k v)"

definition add_keyword_row :: "(nat \<times> ScoreEntry) list \<Rightarrow> Clause \<times> real \<Rightarrow> (nat \<times> ScoreEntry) list" where
  "add_keyword_row m row =
     (case row of (clause, ftsScore) \<Rightarrow>
        map_set m (cid clause)
          \<lparr>se_clause = clause, keywordScore = max 0 (1 + ftsScore / 10), semanticScore = 0\<rparr>)"

definition add_semantic_result ::
  "Database \<Rightarrow> (nat \<times> ScoreEntry) list \<Rightarrow> nat \<times> real \<Rightarrow> (nat \<times> ScoreEntry) list" where
  "add_semantic_result db m res =
     (case res of (clauseId, sim) \<Rightarrow>
        (case map_of m clauseId of
           Some existing \<Rightarrow> map_set m clauseId (existing\<lparr>semanticScore := sim\<rparr>)
         | None \<Rightarrow>
             (case find (\<lambda>c. cid c = clauseId) (clauses db) of
                Some row \<Rightarrow>
                  map_set m clauseId
                    \<lparr>se_clause = row, keywordScore = 0, semanticScore = sim\<rparr>
              | None \<Rightarrow> m)))"

definition merge_entries ::
  "(Clause \<times> real) list \<Rightarrow> (nat \<times> real) list \<Rightarrow> Database \<Rightarrow> ScoreEntry list" where
  "merge_entries keywordResults semanticResults db =
     map snd (foldl (add_semantic_result db) (foldl add_keyword_row [] keywordResults)
                semanticResults)"

record Weights =
  w_semantic :: real
  w_keyword :: real
  w_recency :: real

text \<open>The first summand of a score: \<open>semanticScore * weights.semanticWeight\<close>.\<close>

definition semantic_contribution :: "Weights \<Rightarrow> ScoreEntry \<Rightarrow> real" where
  "semantic_contribution w e = semanticScore e * w_semantic w"

definition entry_score :: "Weights \<Rightarrow> string \<Rightarrow> int \<Rightarrow> ScoreEntry \<Rightarrow> real" where
  "entry_score w query now e =
     (let clause = se_clause e;
          queryLower = toLowerCase query;
          queryWords = similarity_words query;
          s1 = semantic_contribution w e;
          s2 = s1 + keywordScore e * w_keyword w;
          s3 = s2 + confidence clause * 0.2;
          s4 = (if w_recency w > 0
                then s3 + max 0 (1 - (real_of_int (now - last_accessed clause)
                                        / (1000 * 60 * 60 * 24)) / 30) * w_recency w
                else s3);
          naturalLower = toLowerCase (natural_form clause);
          s5 = foldl (\<lambda>acc word. if js_includes naturalLower word then acc + 0.05 else acc)
                 s4 queryWords;
          s6 = (if js_includes queryLower (toLowerCase (subject clause)) then s5 + 0.05 else s5);
          s7 = (if js_includes queryLower
                     (toLowerCase (map (\<lambda>c. if c = CHR ''_'' then CHR '' '' else c)
                        (predicate clause)))
                then s6 + 0.05 else s6)
      in min 1 s7)"

definition mergeAndScore ::
  "(Clause \<times> real) list \<Rightarrow> (nat \<times> real) list \<Rightarrow> string \<Rightarrow> Weights \<Rightarrow> int \<Rightarrow> Database
     \<Rightarrow> ScoredClause list" where
  "mergeAndScore keywordResults semanticResults query w now db =
     sort_key (\<lambda>s. - score s)
       (map (\<lambda>e. \<lparr>sc_clause = se_clause e, score = entry_score w query now e\<rparr>)
          (merge_entries keywordResults semanticResults db))"

text \<open>The retriever's own \<open>logAccess\<close>: it bumps the row, then writes the audit row.\<close>

definition retriever_logAccess :: "nat \<Rightarrow> AccessType \<Rightarrow> string \<Rightarrow> int \<Rightarrow> Database \<Rightarrow> Database" where
  "retriever_logAccess clauseId accessType ctx now db =
     (let (i, db1) = uuidv7 db;
          db2 = update_clauses (\<lambda>c. cid c = clauseId)
                  (\<lambda>c. c\<lparr>last_accessed := now, access_count := access_count c + 1\<rparr>) db1
      in db2\<lparr>access_log := access_log db2 @
           [\<lparr>al_id = i, al_clause_id = clauseId, accessed_at = now, access_type = accessType,
             al_context = take 500 ctx, was_useful = None, correction_id = None\<rparr>]\<rparr>)"

text \<open>The option defaults of \<open>retrieve\<close> and the weights it passes to \<open>mergeAndScore\<close>.\<close>

definition opt_limit :: "Retriever \<Rightarrow> RetrievalOptions \<Rightarrow> nat" where
  "opt_limit r opts = (case ro_limit opts of Some l \<Rightarrow> l | None \<Rightarrow> defaultLimit (rt_config r))"

definition opt_semanticWeight :: "Retriever \<Rightarrow> RetrievalOptions \<Rightarrow> real" where
  "opt_semanticWeight r opts =
     (case ro_semanticWeight opts of Some x \<Rightarrow> x | None \<Rightarrow> semanticWeight (rt_config r))"

definition opt_keywordWeight :: "Retriever \<Rightarrow> RetrievalOptions \<Rightarrow> real" where
  "opt_keywordWeight r opts =
     (case ro_keywordWeight opts of Some x \<Rightarrow> x | None \<Rightarrow> keywordWeight (rt_config r))"

definition canUseSemanticSearch :: "Retriever \<Rightarrow> RetrievalOptions \<Rightarrow> bool" where
  "canUseSemanticSearch r opts = (isSemanticSearchAvailable r \<and> opt_semanticWeight r opts > 0)"

definition actual_weights :: "Retriever \<Rightarrow> RetrievalOptions \<Rightarrow> Weights" where
  "actual_weights r opts =
     \<lparr>w_semantic = (if canUseSemanticSearch r opts then opt_semanticWeight r opts else 0),
      w_keyword = (if canUseSemanticSearch r opts then opt_keywordWeight r opts
                   else opt_keywordWeight r opts + opt_semanticWeight r opts),
      w_recency = (if (case ro_boostRecent opts of Some b \<Rightarrow> b | None \<Rightarrow> False)
                   then recencyWeight (rt_config r) else 0)\<rparr>"

definition retrieve ::
  "Retriever \<Rightarrow> Sqlite \<Rightarrow> string \<Rightarrow> RetrievalOptions \<Rightarrow> int \<Rightarrow> Database
     \<Rightarrow> (error + RetrievalResult) \<times> Database" where
  "retrieve r sq query opts now db =
     (let lmt = opt_limit r opts
      in case keywordSearch sq query (ro_types opts)
                (case ro_minConfidence opts of Some x \<Rightarrow> x | None \<Rightarrow> 0.5)
                (case ro_includeExpired opts of Some b \<Rightarrow> b | None \<Rightarrow> False)
                (lmt * 2) db of
           Inl e \<Rightarrow> (Inl e, db)
         | Inr keywordResults \<Rightarrow>
             (case (if canUseSemanticSearch r opts \<and> trim query \<noteq> []
                    then (case embeddingManager r of
                            Some m \<Rightarrow> findSimilar m query (lmt * 2) 0.3 db
                          | None \<Rightarrow> Inr [])
                    else Inr []) of
                Inl e \<Rightarrow> (Inl e, db)
              | Inr semanticResults \<Rightarrow>
                  let scoredClauses =
                        mergeAndScore keywordResults semanticResults query
                          (actual_weights r opts) now db;
                      topResults = take lmt scoredClauses;
                      db1 = foldl (\<lambda>d sc. retriever_logAccess (cid (sc_clause sc)) Retrieval
                                            query now d)
                              db topResults
                  in (Inr \<lparr>rr_clauses = topResults,
                           totalMatches = max (length keywordResults) (length semanticResults),
                           retrievalMethod =
                             (if canUseSemanticSearch r opts then HybridMethod
                              else KeywordMethod)\<rparr>,
                      db1)))"





section \<open>The range invariant\<close>

text \<open>Every stored confidence lies in [0,1].\<close>

text \<open>A candidate whose confidence and decay rate, as \<open>create\<close> fills them in, pass the CHECKs.\<close>

definition input_ok :: "ClauseInput \<Rightarrow> bool" where
  "input_ok input =
     (0 \<le> (case in_confidence input of Some x \<Rightarrow> x | None \<Rightarrow> 0.8)
      \<and> (case in_confidence input of Some x \<Rightarrow> x | None \<Rightarrow> 0.8) \<le> 1
      \<and> 0 \<le> (case in_decay_rate input of
                  Some r \<Rightarrow> r | None \<Rightarrow> DEFAULT_DECAY_RATES (in_type input)))"

text \<open>The active rows of a (subject, predicate) pair.\<close>

definition active_for :: "string \<Rightarrow> string \<Rightarrow> Database \<Rightarrow> Clause list" where
  "active_for s p db =
     filter (\<lambda>c. subject c = s \<and> predicate c = p \<and> valid_to c = None) (clauses db)"

definition confidence_in_range :: "Database \<Rightarrow> bool" where
  "confidence_in_range db = list_all (\<lambda>c. 0 \<le> confidence c \<and> confidence c \<le> 1) (clauses db)"

section \<open>Example states\<close>

definition empty_db :: Database where
  "empty_db =
     \<lparr>clauses = [], conflicts = [], decay_log = [], access_log = [],
      system_metadata = [''schema_version'' \<mapsto> MetaText ''1'',
                         ''total_clauses_extracted'' \<mapsto> MetaText ''0'',
                         ''total_conflicts_detected'' \<mapsto> MetaText ''0''],
      next_uuid = 0\<rparr>"

definition seattle_clause :: Clause where
  "seattle_clause =
     \<lparr>cid = 0, ctype = Fact, subject = ''user'', predicate = ''lives_in'', object = ''Seattle'',
      natural_form = ''User lives in Seattle'', valid_from = 1000, valid_to = None,
      recorded_at = 1000, confidence = 0.9, decay_rate = 0.0005, reinforcement_count = 0,
      source_id = ''manual'', extraction_method = ''manual'', last_accessed = 1000,
      access_count = 0, tags = [], metadata = []\<rparr>"

definition seattle_input :: ClauseInput where
  "seattle_input =
     \<lparr>in_type = Fact, in_subject = ''user'', in_predicate = ''lives_in'', in_object = ''Seattle'',
      in_natural_form = ''User lives in Seattle'', in_confidence = Some 0.9,
      in_decay_rate = None, in_valid_from = None, in_tags = None, in_metadata = None,
      in_source_id = Some ''src-1'', in_extraction_method = None\<rparr>"

definition denver_input :: ClauseInput where
  "denver_input =
     \<lparr>in_type = Fact, in_subject = ''user'', in_predicate = ''lives_in'', in_object = ''Denver'',
      in_natural_form = ''User lives in Denver'', in_confidence = Some 0.95,
      in_decay_rate = None, in_valid_from = None, in_tags = None, in_metadata = None,
      in_source_id = Some ''src-2'', in_extraction_method = None\<rparr>"

definition stale_clause :: Clause where
  "stale_clause =
     \<lparr>cid = 0, ctype = ContextT, subject = ''user'', predicate = ''is_working_on'',
      object = ''report'', natural_form = ''User is working on the report'', valid_from = 0,
      valid_to = None, recorded_at = 0, confidence = 0.15, decay_rate = 0.05,
      reinforcement_count = 0, source_id = ''manual'', extraction_method = ''manual'',
      last_accessed = 0, access_count = 0, tags = [], metadata = []\<rparr>"

definition decay_cfg :: DecayConfig where
  "decay_cfg = \<lparr>dc_enabled = True, defaultRate = 0.001, minConfidence = 0.1\<rparr>"

definition ninety_days :: int where
  "ninety_days = 90 * (1000 * 60 * 60 * 24)"

definition stale_db :: Database where
  "stale_db = empty_db\<lparr>clauses := [stale_clause]\<rparr>"

definition seattle_db :: Database where
  "seattle_db = empty_db\<lparr>clauses := [seattle_clause], next_uuid := 1\<rparr>"

definition no_changes :: ClauseUpdates where
  "no_changes = \<lparr>up_confidence = None, up_decay_rate = None, up_tags = None,
      up_metadata = None, up_natural_form = None\<rparr>"






















section \<open>Storage lemmas\<close>

lemma clauses_logDecay [simp]: "clauses (logDecay i p n r now db) = clauses db"
  by (simp add: logDecay_def uuidv7_def)

lemma clauses_setMetadata [simp]: "clauses (setMetadata k v db) = clauses db"
  by (simp add: setMetadata_def)

lemma clauses_update_clauses [simp]:
  "clauses (update_clauses wh st db) = map (\<lambda>c. if wh c then st c else c) (clauses db)"
  by (simp add: update_clauses_def)

lemma distinct_cid_eq:
  "distinct (map cid xs) \<Longrightarrow> c \<in> set xs \<Longrightarrow> r \<in> set xs \<Longrightarrow> cid c = cid r \<Longrightarrow> c = r"
  by (meson distinct_map inj_onD)

lemma find_update_cid:
  "(\<And>c. cid (g c) = cid c) \<Longrightarrow>
   find (\<lambda>c. cid c = i) (map (\<lambda>c. if cid c = i then g c else c) xs)
     = map_option g (find (\<lambda>c. cid c = i) xs)"
  by (induction xs) auto

lemma update_clauses_checked_ok:
  "list_all (\<lambda>c. if wh c then check_clause (st c) else True) (clauses db)
   \<Longrightarrow> update_clauses_checked wh st db = (Inr (), update_clauses wh st db)"
  by (simp add: update_clauses_checked_def)
lemma clauses_logAccess [simp]: "clauses (logAccess i a x now db) = clauses db"
  by (simp add: logAccess_def uuidv7_def)

lemma clauses_bump_counter [simp]: "clauses (bump_counter k db) = clauses db"
  by (simp add: bump_counter_def Let_def)

lemma snd_case_result:
  "P (snd r) \<Longrightarrow> (\<And>u d. r = (Inr u, d) \<Longrightarrow> P (snd (f u d)))
    \<Longrightarrow> P (snd (case r of (Inl e, d) \<Rightarrow> (Inl e, d) | (Inr u, d) \<Rightarrow> f u d))"
  by (cases r; cases "fst r") auto

lemma find_Some_cid: "i \<in> cid ` set xs \<Longrightarrow> \<exists>r. find (\<lambda>c. cid c = i) xs = Some r"
  by (cases "find (\<lambda>c. cid c = i) xs") (auto simp: find_None_iff)

section \<open>Invalidation is one-way but not idempotent\<close>

lemma map_of_json_set: "map_of (json_set m k v) k = Some v"
  by (induction m) auto

lemma clauses_invalidate:
  "clauses (invalidate i rsn now db) =
     map (\<lambda>c. if cid c = i
               then c\<lparr>valid_to := Some now,
                      metadata := json_set (metadata c) ''invalidation_reason''
                                    (JStr (case rsn of None \<Rightarrow> ''invalidated'' | Some r \<Rightarrow> r))\<rparr>
               else c) (clauses db)"
  by (simp add: invalidate_def update_clauses_def)

text \<open>
  C3, as stated, fails: a clause invalidated at time 2000 and invalidated again at time 5000
  ends with \<open>valid_to = 5000\<close>; the second call overwrites the first value.
\<close>

theorem invalidate_overwrites_valid_to:
  "map valid_to (clauses (invalidate 0 (Some ''moved'') 2000 (empty_db\<lparr>clauses := [seattle_clause]\<rparr>)))
     = [Some 2000]
   \<and> map valid_to (clauses (invalidate 0 (Some ''again'') 5000
         (invalidate 0 (Some ''moved'') 2000 (empty_db\<lparr>clauses := [seattle_clause]\<rparr>))))
     = [Some 5000]"
  by (simp add: clauses_invalidate empty_db_def seattle_clause_def)

text \<open>
  C3, amended: \<open>invalidate\<close> is a one-way transition. It touches only the rows with the
  given id; on those it sets \<open>valid_to\<close> to the current time and \<open>invalidation_reason\<close> to
  the given reason (default \<open>invalidated\<close>), whether or not the row was invalid already;
  every row that was invalid before is invalid after, so no clause is reactivated. The
  other tables are untouched.
\<close>

theorem invalidate_one_way:
  "list_all2
     (\<lambda>c c'. cid c' = cid c
        \<and> (valid_to c \<noteq> None \<longrightarrow> valid_to c' \<noteq> None)
        \<and> (if cid c = i
            then valid_to c' = Some now
              \<and> map_of (metadata c') ''invalidation_reason''
                    = Some (JStr (case rsn of None \<Rightarrow> ''invalidated'' | Some r \<Rightarrow> r))
            else c' = c))
     (clauses db) (clauses (invalidate i rsn now db))
   \<and> conflicts (invalidate i rsn now db) = conflicts db
   \<and> decay_log (invalidate i rsn now db) = decay_log db
   \<and> access_log (invalidate i rsn now db) = access_log db"
proof -
  have "list_all2
     (\<lambda>c c'. cid c' = cid c
        \<and> (valid_to c \<noteq> None \<longrightarrow> valid_to c' \<noteq> None)
        \<and> (if cid c = i
            then valid_to c' = Some now
              \<and> map_of (metadata c') ''invalidation_reason''
                    = Some (JStr (case rsn of None \<Rightarrow> ''invalidated'' | Some r \<Rightarrow> r))
            else c' = c))
     (clauses db) (clauses (invalidate i rsn now db))"
    unfolding clauses_invalidate list_all2_map2
    by (rule list_all2_refl) (simp add: map_of_json_set)
  then show ?thesis
    by (simp add: invalidate_def update_clauses_def)
qed

theorem invalidate_one_way_witness:
  "valid_to (seattle_clause\<lparr>valid_to := Some 2000\<rparr>) \<noteq> None
   \<and> list_all2 (\<lambda>c c'. valid_to c' = Some 5000 \<and> cid c' = 0)
       [seattle_clause\<lparr>valid_to := Some 2000\<rparr>]
       (clauses (invalidate 0 None 5000 (empty_db\<lparr>clauses := [seattle_clause\<lparr>valid_to := Some 2000\<rparr>]\<rparr>)))"
  using invalidate_one_way [of 0 5000 None "empty_db\<lparr>clauses := [seattle_clause\<lparr>valid_to := Some 2000\<rparr>]\<rparr>"]
  by (simp add: clauses_invalidate seattle_clause_def)

section \<open>The decay batch\<close>

subsection \<open>The loop, dry and wet\<close>

lemma run_loop_dry: "\<exists>r. run_loop True cfg now rows rep db = (Inr r, db)"
  by (induction rows arbitrary: rep) (simp_all add: Let_def)

lemma run_loop_dry_same_report:
  "run_loop False cfg now rows rep db = (Inr r, db') \<Longrightarrow> run_loop True cfg now rows rep db0 = (Inr r, db0)"
proof (induction rows arbitrary: rep db)
  case Nil
  then show ?case by simp
next
  case (Cons c rows)
  then show ?case
    by (auto simp: Let_def split: if_splits prod.splits sum.splits)
qed

lemma run_loop_report:
  "\<exists>r. run_loop True cfg now rows rep db = (Inr r, db)
     \<and> processed r = processed rep + length rows
     \<and> archived r = archived rep + length (filter (archives cfg now) rows)
     \<and> decayed r = decayed rep + length (filter (decays cfg now) rows)
     \<and> reinforced r = reinforced rep \<and> timestamp r = timestamp rep"
proof (induction rows arbitrary: rep)
  case Nil
  then show ?case by simp
next
  case (Cons c rows)
  show ?case
  proof (cases "archives cfg now c")
    case True
    with Cons [of "rep\<lparr>processed := processed rep + 1, archived := archived rep + 1\<rparr>"]
    show ?thesis by (auto simp: Let_def archives_def decays_def)
  next
    case False
    show ?thesis
    proof (cases "decays cfg now c")
      case True
      with False Cons [of "rep\<lparr>processed := processed rep + 1, decayed := decayed rep + 1\<rparr>"]
      show ?thesis by (auto simp: Let_def archives_def decays_def)
    next
      case nd: False
      with False Cons [of "rep\<lparr>processed := processed rep + 1\<rparr>"]
      show ?thesis by (auto simp: Let_def archives_def decays_def)
    qed
  qed
qed

lemma cid_decay_row [simp]: "cid (decay_row cfg now c) = cid c"
  by (simp add: decay_row_def Let_def)

lemma decayed_confidence_nonneg: "0 \<le> decayed_confidence now c"
  by (simp add: decayed_confidence_def Let_def)

lemma check_decay_row:
  "check_clause c \<Longrightarrow> minConfidence cfg < confidence c \<Longrightarrow> check_clause (decay_row cfg now c)"
  using decayed_confidence_nonneg [of now c]
  by (auto simp: decay_row_def check_clause_def Let_def)

lemma confidence_decay_row_le:
  "minConfidence cfg < confidence c \<Longrightarrow> confidence (decay_row cfg now c) \<le> confidence c"
  by (auto simp: decay_row_def Let_def)

text \<open>
  One iteration on a row of a table whose ids are unique (the PRIMARY KEY) and whose rows
  satisfy the CHECK constraints.
\<close>

lemma archiveClause_row:
  assumes "distinct (map cid (clauses db))" "r \<in> set (clauses db)"
    "list_all check_clause (clauses db)" "0 \<le> n" "n \<le> 1"
  shows "\<exists>db1. archiveClause (cid r) n now db = (Inr (), db1)
     \<and> clauses db1 = map (\<lambda>c. if cid c = cid r
            then r\<lparr>valid_to := Some now, confidence := n,
                   metadata := json_set (metadata r) ''archived_reason'' (JStr ''confidence_decay'')\<rparr>
            else c) (clauses db)
     \<and> (\<exists>e. decay_log db1 = decay_log db @ [e]
            \<and> log_fields e = (cid r, n, n, ''archived_decay'', now))"
proof -
  define st where "st = (\<lambda>c::Clause. c\<lparr>valid_to := Some now, confidence := n,
      metadata := json_set (metadata c) ''archived_reason'' (JStr ''confidence_decay'')\<rparr>)"
  define db0 where "db0 = update_clauses (\<lambda>c. cid c = cid r) st db"
  have eq: "c = r" if "c \<in> set (clauses db)" "cid c = cid r" for c
    using distinct_cid_eq [OF assms(1) that(1) assms(2) that(2)] .
  have ok: "list_all (\<lambda>c. if cid c = cid r then check_clause (st c) else True) (clauses db)"
    using assms(3,4,5) by (auto simp: list_all_iff check_clause_def st_def)
  have u: "update_clauses_checked (\<lambda>c. cid c = cid r) st db = (Inr (), db0)"
    using ok by (simp add: update_clauses_checked_def db0_def)
  have "map (\<lambda>c. if cid c = cid r then st c else c) (clauses db)
        = map (\<lambda>c. if cid c = cid r then st r else c) (clauses db)"
    using eq by (intro map_cong) auto
  then have m: "clauses db0 = map (\<lambda>c. if cid c = cid r then st r else c) (clauses db)"
    by (simp add: db0_def update_clauses_def)
  have "st r \<in> set (clauses db0)"
    unfolding m using assms(2) by force
  moreover have "cid (st r) = cid r"
    by (simp add: st_def)
  ultimately have "cid r \<in> cid ` set (clauses db0)"
    by (metis imageI)
  from find_Some_cid [OF this]
  obtain x where f: "find (\<lambda>c. cid c = cid r) (clauses db0) = Some x" by blast
  then have "x \<in> set (clauses db0)" "cid x = cid r"
    by (auto simp: find_Some_iff)
  then have cx: "confidence x = n"
    unfolding m by (auto simp: st_def split: if_splits)
  have a: "archiveClause (cid r) n now db
        = (Inr (), logDecay (cid r) n n ''archived_decay'' now db0)"
    using u f cx by (simp add: archiveClause_def st_def)
  have l: "decay_log db0 = decay_log db"
    by (simp add: db0_def update_clauses_def)
  show ?thesis
    unfolding a using m l
    by (simp add: logDecay_def uuidv7_def log_fields_def st_def)
qed

lemma applyDecay_row:
  assumes "distinct (map cid (clauses db))" "r \<in> set (clauses db)"
    "list_all check_clause (clauses db)" "0 \<le> n" "n \<le> 1"
  shows "\<exists>db1. applyDecay (cid r) old n now db = (Inr (), db1)
     \<and> clauses db1 = map (\<lambda>c. if cid c = cid r then r\<lparr>confidence := n\<rparr> else c) (clauses db)
     \<and> (\<exists>e. decay_log db1 = decay_log db @ [e]
            \<and> log_fields e = (cid r, old, n, ''scheduled_decay'', now))"
proof -
  have eq: "c = r" if "c \<in> set (clauses db)" "cid c = cid r" for c
    using distinct_cid_eq [OF assms(1) that(1) assms(2) that(2)] .
  have ok: "list_all (\<lambda>c. if cid c = cid r then check_clause (c\<lparr>confidence := n\<rparr>) else True) (clauses db)"
    using assms(3,4,5) by (auto simp: list_all_iff check_clause_def)
  have m: "map (\<lambda>c. if cid c = cid r then c\<lparr>confidence := n\<rparr> else c) (clauses db)
        = map (\<lambda>c. if cid c = cid r then r\<lparr>confidence := n\<rparr> else c) (clauses db)"
    using eq by (intro map_cong) auto
  show ?thesis
    using ok m
    by (simp add: applyDecay_def update_clauses_checked_def update_clauses_def logDecay_def
          uuidv7_def log_fields_def)
qed

lemma run_loop_step:
  assumes d: "distinct (map cid (clauses db))" and r: "r \<in> set (clauses db)"
    and ok: "list_all check_clause (clauses db)" and sel: "minConfidence cfg < confidence r"
  shows "\<exists>rep1 db1. run_loop False cfg now (r # rest) rep db = run_loop False cfg now rest rep1 db1
     \<and> clauses db1 = map (\<lambda>c. if cid c = cid r then decay_row cfg now c else c) (clauses db)
     \<and> (\<exists>new. decay_log db1 = decay_log db @ new \<and> map log_fields new = batch_log cfg now r)"
proof -
  define n where "n = decayed_confidence now r"
  have n0: "0 \<le> n" by (simp add: n_def decayed_confidence_nonneg)
  have r1: "confidence r \<le> 1"
    using r ok by (auto simp: list_all_iff check_clause_def)
  have eq: "c = r" if "c \<in> set (clauses db)" "cid c = cid r" for c
    using distinct_cid_eq [OF d that(1) r that(2)] .
  consider (arch) "n < minConfidence cfg"
    | (dec) "\<not> n < minConfidence cfg" "n < confidence r - 0.001"
    | (keep) "\<not> n < minConfidence cfg" "\<not> n < confidence r - 0.001"
    by blast
  then show ?thesis
  proof cases
    case arch
    then have "n \<le> 1" using sel r1 by linarith
    from archiveClause_row [OF d r ok n0 this, of now]
    obtain db1 e where a: "archiveClause (cid r) n now db = (Inr (), db1)"
      and c: "clauses db1 = map (\<lambda>c. if cid c = cid r
            then r\<lparr>valid_to := Some now, confidence := n,
                   metadata := json_set (metadata r) ''archived_reason'' (JStr ''confidence_decay'')\<rparr>
            else c) (clauses db)"
      and l: "decay_log db1 = decay_log db @ [e]"
         "log_fields e = (cid r, n, n, ''archived_decay'', now)" by blast
    have "decay_row cfg now r = r\<lparr>valid_to := Some now, confidence := n,
                   metadata := json_set (metadata r) ''archived_reason'' (JStr ''confidence_decay'')\<rparr>"
      using arch by (simp add: decay_row_def n_def)
    then have c': "clauses db1 = map (\<lambda>c. if cid c = cid r then decay_row cfg now c else c) (clauses db)"
      unfolding c using eq by (intro map_cong refl) (metis (full_types))
    have b: "map log_fields [e] = batch_log cfg now r"
      using arch l(2) by (simp add: batch_log_def n_def Let_def)
    have s: "run_loop False cfg now (r # rest) rep db
        = run_loop False cfg now rest
            (rep\<lparr>processed := processed rep + 1, archived := archived rep + 1\<rparr>) db1"
      using a arch by (simp add: n_def [symmetric] Let_def)
    from s c' l(1) b show ?thesis by blast
  next
    case dec
    then have "n \<le> 1" using r1 by auto
    from applyDecay_row [OF d r ok n0 this, of "confidence r" now]
    obtain db1 e where a: "applyDecay (cid r) (confidence r) n now db = (Inr (), db1)"
      and c: "clauses db1 = map (\<lambda>c. if cid c = cid r then r\<lparr>confidence := n\<rparr> else c) (clauses db)"
      and l: "decay_log db1 = decay_log db @ [e]"
         "log_fields e = (cid r, confidence r, n, ''scheduled_decay'', now)"
      by blast
    have "decay_row cfg now r = r\<lparr>confidence := n\<rparr>"
      using dec by (simp add: decay_row_def n_def)
    then have c': "clauses db1 = map (\<lambda>c. if cid c = cid r then decay_row cfg now c else c) (clauses db)"
      unfolding c using eq by (intro map_cong refl) (metis (full_types))
    have b: "map log_fields [e] = batch_log cfg now r"
      using dec l(2) by (simp add: batch_log_def n_def Let_def)
    have s: "run_loop False cfg now (r # rest) rep db
        = run_loop False cfg now rest
            (rep\<lparr>processed := processed rep + 1, decayed := decayed rep + 1\<rparr>) db1"
      using a dec by (simp add: n_def [symmetric] Let_def)
    from s c' l(1) b show ?thesis by blast
  next
    case keep
    have "decay_row cfg now r = r"
      using keep by (simp add: decay_row_def n_def)
    then have c': "clauses db = map (\<lambda>c. if cid c = cid r then decay_row cfg now c else c) (clauses db)"
      using eq by (intro map_idI [symmetric]) (metis (full_types))
    have b: "map log_fields [] = batch_log cfg now r"
      using keep by (simp add: batch_log_def n_def Let_def)
    have s: "run_loop False cfg now (r # rest) rep db
        = run_loop False cfg now rest (rep\<lparr>processed := processed rep + 1\<rparr>) db"
      using keep by (simp add: n_def [symmetric] Let_def)
    have "decay_log db = decay_log db @ []" by simp
    with s c' b show ?thesis by blast
  qed
qed

lemma run_loop_wet:
  assumes "distinct (map cid (clauses db))" "set rows \<subseteq> set (clauses db)"
    "distinct (map cid rows)" "list_all check_clause (clauses db)"
    "\<forall>r\<in>set rows. minConfidence cfg < confidence r"
  shows "\<exists>rep' db'. run_loop False cfg now rows rep db = (Inr rep', db')
     \<and> clauses db' = map (\<lambda>c. if cid c \<in> cid ` set rows then decay_row cfg now c else c) (clauses db)
     \<and> (\<exists>new. decay_log db' = decay_log db @ new
            \<and> map log_fields new = concat (map (batch_log cfg now) rows))"
  using assms
proof (induction rows arbitrary: rep db)
  case Nil
  then show ?case by simp
next
  case (Cons r rows)
  have rin: "r \<in> set (clauses db)" and sel: "minConfidence cfg < confidence r"
    using Cons.prems by auto
  from run_loop_step [OF Cons.prems(1) rin Cons.prems(4) sel, of now rows rep]
  obtain rep1 db1 new1 where
    s: "run_loop False cfg now (r # rows) rep db = run_loop False cfg now rows rep1 db1"
    and c: "clauses db1 = map (\<lambda>c. if cid c = cid r then decay_row cfg now c else c) (clauses db)"
    and l1: "decay_log db1 = decay_log db @ new1" "map log_fields new1 = batch_log cfg now r"
    by blast
  have ids: "map cid (clauses db1) = map cid (clauses db)"
    unfolding c by (simp add: comp_def cong: map_cong)
  have d1: "distinct (map cid (clauses db1))" using Cons.prems(1) ids by simp
  have notin: "cid r \<notin> cid ` set rows" using Cons.prems(3) by auto
  have sub1: "set rows \<subseteq> set (clauses db1)"
  proof
    fix x assume x: "x \<in> set rows"
    then have "cid x \<noteq> cid r" using notin by (metis imageI)
    moreover have "x \<in> set (clauses db)" using x Cons.prems(2) by auto
    ultimately have "x \<in> set (clauses db)" "cid x \<noteq> cid r" by simp_all
    then show "x \<in> set (clauses db1)" unfolding c by force
  qed
  have ok1: "list_all check_clause (clauses db1)"
    unfolding c using Cons.prems(1,4) rin sel
    by (auto simp: list_all_iff check_decay_row dest: distinct_cid_eq)
  from Cons.IH [OF d1 sub1 _ ok1, of rep1] Cons.prems(3,5)
  obtain rep' db' new2 where
    f: "run_loop False cfg now rows rep1 db1 = (Inr rep', db')"
    and c': "clauses db' = map (\<lambda>c. if cid c \<in> cid ` set rows then decay_row cfg now c else c) (clauses db1)"
    and l2: "decay_log db' = decay_log db1 @ new2"
       "map log_fields new2 = concat (map (batch_log cfg now) rows)"
    by auto
  have cl: "clauses db' = map (\<lambda>c. if cid c \<in> cid ` set (r # rows) then decay_row cfg now c else c) (clauses db)"
    unfolding c' c using notin by (auto simp: comp_def)
  have lg: "decay_log db' = decay_log db @ (new1 @ new2)"
    "map log_fields (new1 @ new2) = concat (map (batch_log cfg now) (r # rows))"
    using l1 l2 by simp_all
  from s f cl lg show ?case by metis
qed

lemma distinct_selected: "distinct (map cid (clauses db)) \<Longrightarrow> distinct (map cid (selected cfg db))"
  by (simp add: selected_def distinct_map_filter)

lemma cid_in_selected:
  assumes "distinct (map cid (clauses db))" "c \<in> set (clauses db)"
  shows "cid c \<in> cid ` set (selected cfg db) \<longleftrightarrow> (valid_to c = None \<and> minConfidence cfg < confidence c)"
proof
  assume "cid c \<in> cid ` set (selected cfg db)"
  then obtain r where r: "r \<in> set (selected cfg db)" "cid r = cid c" by auto
  then have "r \<in> set (clauses db)" by (simp add: selected_def)
  with assms r have "r = c" by (metis distinct_cid_eq)
  with r show "valid_to c = None \<and> minConfidence cfg < confidence c" by (simp add: selected_def)
next
  assume "valid_to c = None \<and> minConfidence cfg < confidence c"
  with assms(2) have "c \<in> set (selected cfg db)" by (simp add: selected_def)
  then show "cid c \<in> cid ` set (selected cfg db)" by simp
qed

lemma run_wet:
  assumes d: "distinct (map cid (clauses db))" and ok: "list_all check_clause (clauses db)"
    and en: "dc_enabled cfg"
  shows "\<exists>rep db'. run False cfg now db = (Inr rep, db')
     \<and> clauses db' = map (\<lambda>c. if valid_to c = None \<and> minConfidence cfg < confidence c
                               then decay_row cfg now c else c) (clauses db)
     \<and> processed rep = length (selected cfg db)
     \<and> archived rep = length (filter (archives cfg now) (selected cfg db))
     \<and> decayed rep = length (filter (decays cfg now) (selected cfg db))
     \<and> (\<exists>new. decay_log db' = decay_log db @ new
            \<and> map log_fields new = concat (map (batch_log cfg now) (selected cfg db)))"
proof -
  have sub: "set (selected cfg db) \<subseteq> set (clauses db)" by (auto simp: selected_def)
  have sel: "\<forall>r\<in>set (selected cfg db). minConfidence cfg < confidence r" by (simp add: selected_def)
  from run_loop_wet [OF d sub distinct_selected [OF d] ok sel, of now "empty_report now"]
  obtain rep db1 new where
    l: "run_loop False cfg now (selected cfg db) (empty_report now) db = (Inr rep, db1)"
    and c: "clauses db1 = map (\<lambda>c. if cid c \<in> cid ` set (selected cfg db) then decay_row cfg now c else c) (clauses db)"
    and lg: "decay_log db1 = decay_log db @ new"
       "map log_fields new = concat (map (batch_log cfg now) (selected cfg db))"
    by blast
  have c2: "clauses db1 = map (\<lambda>c. if valid_to c = None \<and> minConfidence cfg < confidence c
                               then decay_row cfg now c else c) (clauses db)"
    unfolding c using cid_in_selected [OF d] by (intro map_cong refl) simp
  from run_loop_report [of cfg now "selected cfg db" "empty_report now" db]
  obtain r where r: "run_loop True cfg now (selected cfg db) (empty_report now) db = (Inr r, db)"
     "processed r = length (selected cfg db)"
     "archived r = length (filter (archives cfg now) (selected cfg db))"
     "decayed r = length (filter (decays cfg now) (selected cfg db))"
    by (auto simp: empty_report_def)
  from run_loop_dry_same_report [OF l, of db] r(1) have "r = rep" by simp
  with r l c2 en have
    "run False cfg now db = (Inr rep, setMetadata ''last_decay_run'' (MetaTime now) db1)"
    "clauses (setMetadata ''last_decay_run'' (MetaTime now) db1)
       = map (\<lambda>c. if valid_to c = None \<and> minConfidence cfg < confidence c
                               then decay_row cfg now c else c) (clauses db)"
    "processed rep = length (selected cfg db)"
    "archived rep = length (filter (archives cfg now) (selected cfg db))"
    "decayed rep = length (filter (decays cfg now) (selected cfg db))"
    by (simp_all add: run_def selected_def [symmetric])
  moreover have "decay_log (setMetadata ''last_decay_run'' (MetaTime now) db1) = decay_log db @ new"
    using lg(1) by (simp add: setMetadata_def)
  ultimately show ?thesis using lg(2) by blast
qed

lemma run_mono_step:
  assumes d: "distinct (map cid (clauses db))" and ok: "list_all check_clause (clauses db)"
  shows "\<exists>rep db'. run False cfg now db = (Inr rep, db')
     \<and> list_all2 (\<lambda>c c'. cid c' = cid c \<and> confidence c' \<le> confidence c) (clauses db) (clauses db')
     \<and> distinct (map cid (clauses db')) \<and> list_all check_clause (clauses db')"
proof (cases "dc_enabled cfg")
  case False
  then have "run False cfg now db = (Inr (empty_report now), db)" by (simp add: run_def)
  with d ok show ?thesis by (simp add: list_all2_refl)
next
  case True
  from run_wet [OF d ok True, of now]
  obtain rep db' where r: "run False cfg now db = (Inr rep, db')"
    and c: "clauses db' = map (\<lambda>c. if valid_to c = None \<and> minConfidence cfg < confidence c
                               then decay_row cfg now c else c) (clauses db)"
    by blast
  have m: "list_all2 (\<lambda>c c'. cid c' = cid c \<and> confidence c' \<le> confidence c) (clauses db) (clauses db')"
    unfolding c list_all2_map2
    by (rule list_all2_refl) (simp add: confidence_decay_row_le)
  have ids: "map cid (clauses db') = map cid (clauses db)"
    unfolding c by (simp add: comp_def cong: map_cong)
  have ok': "list_all check_clause (clauses db')"
    unfolding c using ok by (auto simp: list_all_iff check_decay_row)
  from r m ids d ok' show ?thesis by simp
qed

lemma run_many_mono:
  assumes "distinct (map cid (clauses db))" "list_all check_clause (clauses db)"
  shows "list_all2 (\<lambda>c c'. cid c' = cid c \<and> confidence c' \<le> confidence c)
           (clauses db) (clauses (run_many cfg ts db))"
  using assms
proof (induction ts arbitrary: db)
  case Nil
  then show ?case by (simp add: list_all2_refl)
next
  case (Cons t ts)
  from run_mono_step [OF Cons.prems, of cfg t]
  obtain rep db' where r: "run False cfg t db = (Inr rep, db')"
    and m: "list_all2 (\<lambda>c c'. cid c' = cid c \<and> confidence c' \<le> confidence c) (clauses db) (clauses db')"
    and d: "distinct (map cid (clauses db'))" and ok: "list_all check_clause (clauses db')"
    by blast
  from Cons.IH [OF d ok]
  have "list_all2 (\<lambda>c c'. cid c' = cid c \<and> confidence c' \<le> confidence c)
           (clauses db') (clauses (run_many cfg ts db'))" .
  with m have "list_all2 (\<lambda>c c'. cid c' = cid c \<and> confidence c' \<le> confidence c)
           (clauses db) (clauses (run_many cfg ts db'))"
    by (rule list_all2_trans [rotated]) auto
  with r show ?case by simp
qed

lemma batch_log_other:
  "cid r \<noteq> i \<Longrightarrow> filter (\<lambda>t. fst t = i) (batch_log cfg now r) = []"
  by (simp add: batch_log_def Let_def)

lemma batch_log_own: "filter (\<lambda>t. fst t = cid r) (batch_log cfg now r) = batch_log cfg now r"
  by (simp add: batch_log_def Let_def)

lemma batch_log_absent:
  "i \<notin> cid ` set rows \<Longrightarrow> filter (\<lambda>t. fst t = i) (concat (map (batch_log cfg now) rows)) = []"
proof (induction rows)
  case Nil
  then show ?case by simp
next
  case (Cons r rows)
  then have "cid r \<noteq> i" "i \<notin> cid ` set rows" by auto
  with Cons.IH show ?case by (simp add: batch_log_other)
qed

lemma batch_log_of_row:
  assumes "distinct (map cid rows)" "c \<in> set rows"
  shows "filter (\<lambda>t. fst t = cid c) (concat (map (batch_log cfg now) rows)) = batch_log cfg now c"
  using assms
proof (induction rows)
  case Nil
  then show ?case by simp
next
  case (Cons r rows)
  show ?case
  proof (cases "r = c")
    case True
    then have "cid c \<notin> cid ` set rows" using Cons.prems(1) by auto
    from batch_log_absent [OF this] True show ?thesis by (simp add: batch_log_own)
  next
    case False
    then have cin: "c \<in> set rows" using Cons.prems(2) by simp
    then have "cid r \<noteq> cid c" using Cons.prems(1) by (metis distinct.simps(2) imageI list.simps(9) set_map)
    from batch_log_other [OF this] Cons.IH [OF _ cin] Cons.prems(1)
    show ?thesis by simp
  qed
qed

lemma log_fields_filter:
  "map log_fields (filter (\<lambda>e. dl_clause_id e = i) new) = filter (\<lambda>t. fst t = i) (map log_fields new)"
  by (induction new) (simp_all add: log_fields_def)

lemma stale_decayed: "decayed_confidence ninety_days stale_clause = 0.1275"
  by (simp add: decayed_confidence_def stale_clause_def ninety_days_def Let_def)

lemma stale_run:
  "run False decay_cfg ninety_days stale_db
     = (Inr \<lparr>processed = 1, decayed = 1, archived = 0, reinforced = 0, timestamp = ninety_days\<rparr>,
        empty_db\<lparr>clauses := [stale_clause\<lparr>confidence := 0.1275\<rparr>],
                 decay_log := [\<lparr>dl_id = 0, dl_clause_id = 0, previous_confidence = 0.15,
                                new_confidence = 0.1275, reason = ''scheduled_decay'',
                                occurred_at = ninety_days\<rparr>],
                 system_metadata := (system_metadata empty_db)(''last_decay_run'' \<mapsto> MetaTime ninety_days),
                 next_uuid := 1\<rparr>)"
  by (simp add: run_def decay_cfg_def Let_def decayed_confidence_def ninety_days_def applyDecay_def
       update_clauses_checked_def update_clauses_def check_clause_def logDecay_def uuidv7_def
       setMetadata_def empty_report_def stale_db_def stale_clause_def empty_db_def)

subsection \<open>Dry runs\<close>

text \<open>
  C5: a decay run with \<open>dryRun = true\<close> returns a report and leaves the whole database
  state as it was: the clause rows, the conflict rows, \<open>decay_log\<close>, \<open>access_log\<close>, the
  metadata values and the id counter; this for every state, every configuration and every
  clock value. The computation is the full one: whenever the enabled batch run succeeds on
  the same state, the dry run reports the same counts.
\<close>

theorem dry_run_is_pure:
  "(\<exists>report. run True cfg now db = (Inr report, db))
   \<and> (\<forall>report db'. run False cfg now db = (Inr report, db') \<and> dc_enabled cfg
        \<longrightarrow> run True cfg now db = (Inr report, db))"
proof -
  have a: "\<exists>report. run True cfg now db = (Inr report, db)"
    using run_loop_dry [of cfg now "filter (\<lambda>c. valid_to c = None \<and> confidence c > minConfidence cfg) (clauses db)" "empty_report now" db]
    by (auto simp: run_def)
  have b: "run True cfg now db = (Inr report, db)"
    if "run False cfg now db = (Inr report, db')" "dc_enabled cfg" for report db'
    using that run_loop_dry_same_report [of cfg now "filter (\<lambda>c. valid_to c = None \<and> confidence c > minConfidence cfg) (clauses db)" "empty_report now" db report _ db]
    by (auto simp: run_def Let_def split: prod.splits sum.splits)
  from a b show ?thesis by blast
qed

theorem dry_run_is_pure_witness:
  "run False decay_cfg ninety_days stale_db
     = (Inr \<lparr>processed = 1, decayed = 1, archived = 0, reinforced = 0, timestamp = ninety_days\<rparr>,
        snd (run False decay_cfg ninety_days stale_db))
   \<and> dc_enabled decay_cfg
   \<and> run True decay_cfg ninety_days stale_db
     = (Inr \<lparr>processed = 1, decayed = 1, archived = 0, reinforced = 0, timestamp = ninety_days\<rparr>,
        stale_db)"
proof -
  have w: "run False decay_cfg ninety_days stale_db
     = (Inr \<lparr>processed = 1, decayed = 1, archived = 0, reinforced = 0, timestamp = ninety_days\<rparr>,
        snd (run False decay_cfg ninety_days stale_db))"
    by (simp add: stale_run)
  have e: "dc_enabled decay_cfg" by (simp add: decay_cfg_def)
  from dry_run_is_pure [of decay_cfg ninety_days stale_db] w e
  have "run True decay_cfg ninety_days stale_db
     = (Inr \<lparr>processed = 1, decayed = 1, archived = 0, reinforced = 0, timestamp = ninety_days\<rparr>,
        stale_db)"
    by blast
  with w e show ?thesis by blast
qed

subsection \<open>Monotonicity\<close>

text \<open>
  C9: on a table with unique ids whose rows satisfy the CHECK constraints (so every
  \<open>decay_rate\<close> is at least 0), a decay run with \<open>dryRun = false\<close> returns, and the
  confidence it leaves in each row is at most the confidence the row had before; the same
  holds from the first state to the last of any sequence of runs with nothing in between.
\<close>

theorem decay_runs_never_increase_confidence:
  assumes "distinct (map cid (clauses db))" "list_all check_clause (clauses db)"
  shows "(\<exists>rep db'. run False cfg now db = (Inr rep, db')
            \<and> list_all2 (\<lambda>c c'. cid c' = cid c \<and> confidence c' \<le> confidence c)
                 (clauses db) (clauses db'))
       \<and> list_all2 (\<lambda>c c'. cid c' = cid c \<and> confidence c' \<le> confidence c)
           (clauses db) (clauses (run_many cfg ts db))"
  using run_mono_step [OF assms, of cfg now] run_many_mono [OF assms, of cfg ts] by blast

theorem decay_runs_never_increase_confidence_witness:
  "distinct (map cid (clauses stale_db)) \<and> list_all check_clause (clauses stale_db)
   \<and> list_all2 (\<lambda>c c'. cid c' = cid c \<and> confidence c' \<le> confidence c)
        (clauses stale_db) (clauses (run_many decay_cfg [ninety_days, 2 * ninety_days] stale_db))"
proof -
  have d: "distinct (map cid (clauses stale_db))"
    by (simp add: stale_db_def)
  have ok: "list_all check_clause (clauses stale_db)"
    by (simp add: stale_db_def stale_clause_def check_clause_def)
  from decay_runs_never_increase_confidence [OF d ok, of decay_cfg ninety_days "[ninety_days, 2 * ninety_days]"] d ok
  show ?thesis by blast
qed

subsection \<open>The scenario of ninety days\<close>

text \<open>
  C4, as stated, fails. The clause has confidence 0.15, decay rate 0.05, no reinforcement
  and was last accessed 90 days ago; the floor is 0.1. The time factor is 3, the decay
  amount 0.15 * 0.05 * 3 = 0.0225 and the new confidence 0.1275, which is not below the
  floor: the run decays the clause, it does not archive it.
\<close>

theorem decay_scenario_is_not_archived:
  "fst (run False decay_cfg ninety_days stale_db)
     = Inr \<lparr>processed = 1, decayed = 1, archived = 0, reinforced = 0, timestamp = ninety_days\<rparr>
   \<and> map valid_to (clauses (snd (run False decay_cfg ninety_days stale_db)))
     = [None]
   \<and> map confidence (clauses (snd (run False decay_cfg ninety_days stale_db)))
     = [0.1275]
   \<and> map log_fields (decay_log (snd (run False decay_cfg ninety_days stale_db)))
     = [(0, 0.15, 0.1275, ''scheduled_decay'', ninety_days)]"
  unfolding stale_run by (simp add: stale_clause_def log_fields_def)

text \<open>
  C4, amended: on a table with unique ids whose rows satisfy the CHECK constraints, the
  enabled batch run with \<open>dryRun = false\<close> and floor 0.1 returns; the row of such a clause
  is afterwards the same row with confidence 0.1275 (so \<open>valid_to\<close> is still null); the
  clause is among the selected rows, it is one of those the report counts in \<open>decayed\<close>
  and none of those it counts in \<open>archived\<close>; the run appends rows to \<open>decay_log\<close>, and
  exactly one of them is about the clause: previous confidence 0.15, new confidence
  0.1275, reason \<open>scheduled_decay\<close>.
\<close>

theorem decay_scenario:
  assumes "distinct (map cid (clauses db))" "list_all check_clause (clauses db)"
    and "c \<in> set (clauses db)" "valid_to c = None" "confidence c = 0.15" "decay_rate c = 0.05"
    and "reinforcement_count c = 0" "now - last_accessed c = 90 * (1000 * 60 * 60 * 24)"
    and "dc_enabled cfg" "minConfidence cfg = 0.1"
  shows "\<exists>rep db'. run False cfg now db = (Inr rep, db')
     \<and> list_all2 (\<lambda>r r'. if cid r = cid c then r' = c\<lparr>confidence := 0.1275\<rparr> else cid r' = cid r)
          (clauses db) (clauses db')
     \<and> c \<in> set (selected cfg db) \<and> decays cfg now c \<and> \<not> archives cfg now c
     \<and> decayed rep = length (filter (decays cfg now) (selected cfg db))
     \<and> archived rep = length (filter (archives cfg now) (selected cfg db))
     \<and> (\<exists>new. decay_log db' = decay_log db @ new
            \<and> map log_fields (filter (\<lambda>e. dl_clause_id e = cid c) new)
                = [(cid c, 0.15, 0.1275, ''scheduled_decay'', now)])"
proof -
  have dc: "decayed_confidence now c = 0.1275"
    unfolding decayed_confidence_def Let_def assms(5,6,7,8) by simp
  have row: "decay_row cfg now c = c\<lparr>confidence := 0.1275\<rparr>"
    using dc assms(5,10) by (simp add: decay_row_def Let_def)
  from run_wet [OF assms(1,2,9), of now]
  obtain rep db' new where r: "run False cfg now db = (Inr rep, db')"
    and cl: "clauses db' = map (\<lambda>c. if valid_to c = None \<and> minConfidence cfg < confidence c
                               then decay_row cfg now c else c) (clauses db)"
    and rp: "decayed rep = length (filter (decays cfg now) (selected cfg db))"
        "archived rep = length (filter (archives cfg now) (selected cfg db))"
    and lg: "decay_log db' = decay_log db @ new"
        "map log_fields new = concat (map (batch_log cfg now) (selected cfg db))"
    by blast
  have eq: "r = c" if "r \<in> set (clauses db)" "cid r = cid c" for r
    using distinct_cid_eq [OF assms(1) that(1) assms(3) that(2)] .
  have rows: "list_all2 (\<lambda>r r'. if cid r = cid c then r' = c\<lparr>confidence := 0.1275\<rparr> else cid r' = cid r)
          (clauses db) (clauses db')"
    unfolding cl list_all2_map2 list_all2_same
  proof
    fix r assume rin: "r \<in> set (clauses db)"
    show "if cid r = cid c
        then (if valid_to r = None \<and> minConfidence cfg < confidence r then decay_row cfg now r else r)
              = c\<lparr>confidence := 0.1275\<rparr>
        else cid (if valid_to r = None \<and> minConfidence cfg < confidence r then decay_row cfg now r else r) = cid r"
    proof (cases "cid r = cid c")
      case True
      then have "r = c" using eq rin by blast
      then show ?thesis using row assms(4,5,10) by simp
    next
      case False
      then show ?thesis by simp
    qed
  qed
  have csel: "c \<in> set (selected cfg db)"
    using assms(3,4,5,10) by (simp add: selected_def)
  have dec: "decays cfg now c" "\<not> archives cfg now c"
    using dc assms(5,10) by (simp_all add: decays_def archives_def)
  have "batch_log cfg now c = [(cid c, 0.15, 0.1275, ''scheduled_decay'', now)]"
    using dc assms(5,10) by (simp add: batch_log_def Let_def)
  with batch_log_of_row [OF distinct_selected [OF assms(1)] csel, of cfg now]
  have lf: "map log_fields (filter (\<lambda>e. dl_clause_id e = cid c) new)
      = [(cid c, 0.15, 0.1275, ''scheduled_decay'', now)]"
    by (simp add: log_fields_filter lg(2))
  show ?thesis
    by (intro exI conjI) (fact r rows csel dec rp lg(1) lf)+
qed

theorem decay_scenario_witness:
  "distinct (map cid (clauses stale_db)) \<and> list_all check_clause (clauses stale_db)
   \<and> stale_clause \<in> set (clauses stale_db) \<and> valid_to stale_clause = None
   \<and> confidence stale_clause = 0.15 \<and> decay_rate stale_clause = 0.05
   \<and> reinforcement_count stale_clause = 0
   \<and> ninety_days - last_accessed stale_clause = 90 * (1000 * 60 * 60 * 24)
   \<and> dc_enabled decay_cfg \<and> minConfidence decay_cfg = 0.1
   \<and> decays decay_cfg ninety_days stale_clause \<and> \<not> archives decay_cfg ninety_days stale_clause
   \<and> (\<exists>rep db' new. run False decay_cfg ninety_days stale_db = (Inr rep, db')
         \<and> decay_log db' = decay_log stale_db @ new
         \<and> map log_fields (filter (\<lambda>e. dl_clause_id e = cid stale_clause) new)
             = [(cid stale_clause, 0.15, 0.1275, ''scheduled_decay'', ninety_days)])"
proof -
  have h: "distinct (map cid (clauses stale_db))" "list_all check_clause (clauses stale_db)"
    "stale_clause \<in> set (clauses stale_db)" "valid_to stale_clause = None"
    "confidence stale_clause = 0.15" "decay_rate stale_clause = 0.05"
    "reinforcement_count stale_clause = 0"
    "ninety_days - last_accessed stale_clause = 90 * (1000 * 60 * 60 * 24)"
    "dc_enabled decay_cfg" "minConfidence decay_cfg = 0.1"
    by (simp_all add: stale_db_def stale_clause_def check_clause_def ninety_days_def decay_cfg_def)
  from decay_scenario [OF h] show ?thesis
    apply (elim exE conjE)
    apply (intro conjI exI)
    apply (rule h | assumption)+
    done
qed

subsection \<open>Manual adjustment below the floor\<close>

text \<open>
  C10: for a clause that exists, in a table whose rows satisfy the CHECK constraints,
  \<open>adjustConfidence\<close> with a target whose clamp to [0,1] is below the configured floor
  returns normally; every row with the clause's id then holds the clamped confidence, has
  \<open>valid_to\<close> set to the current time and \<open>archived_reason\<close> set; the call appends two rows to
  \<open>decay_log\<close>, the adjustment with the caller's reason and the archival.
\<close>

theorem adjustConfidence_below_floor_archives:
  assumes ex: "find (\<lambda>c. cid c = i) (clauses db) = Some clause"
    and ok: "list_all check_clause (clauses db)"
    and low: "max 0 (min 1 x) < minConfidence cfg"
  shows "\<exists>db'. adjustConfidence cfg i x rsn now db = (Inr (), db')
     \<and> clauses db' =
         map (\<lambda>c. if cid c = i
                   then c\<lparr>confidence := max 0 (min 1 x), valid_to := Some now,
                          metadata := json_set (metadata c) ''archived_reason''
                                        (JStr ''confidence_decay'')\<rparr>
                   else c) (clauses db)
     \<and> decay_log db' = decay_log db @
         [\<lparr>dl_id = next_uuid db, dl_clause_id = i, previous_confidence = confidence clause,
           new_confidence = max 0 (min 1 x), reason = rsn, occurred_at = now\<rparr>,
          \<lparr>dl_id = Suc (next_uuid db), dl_clause_id = i, previous_confidence = max 0 (min 1 x),
           new_confidence = max 0 (min 1 x), reason = ''archived_decay'', occurred_at = now\<rparr>]"
proof -
  define k where "k = max 0 (min 1 x)"
  have k: "0 \<le> k" "k \<le> 1" by (auto simp: k_def)
  define db1 where "db1 = update_clauses (\<lambda>c. cid c = i) (\<lambda>c. c\<lparr>confidence := k\<rparr>) db"
  define db2 where "db2 = logDecay i (confidence clause) k rsn now db1"
  have u1: "update_clauses_checked (\<lambda>c. cid c = i) (\<lambda>c. c\<lparr>confidence := k\<rparr>) db = (Inr (), db1)"
    unfolding db1_def using ok k
    by (intro update_clauses_checked_ok) (auto simp: list_all_iff check_clause_def)
  have c2: "clauses db2 = map (\<lambda>c. if cid c = i then c\<lparr>confidence := k\<rparr> else c) (clauses db)"
    by (simp add: db2_def db1_def)
  define db3 where "db3 = update_clauses (\<lambda>c. cid c = i)
             (\<lambda>c. c\<lparr>valid_to := Some now, confidence := k,
                    metadata := json_set (metadata c) ''archived_reason''
                                  (JStr ''confidence_decay'')\<rparr>) db2"
  have u3: "update_clauses_checked (\<lambda>c. cid c = i)
             (\<lambda>c. c\<lparr>valid_to := Some now, confidence := k,
                    metadata := json_set (metadata c) ''archived_reason''
                                  (JStr ''confidence_decay'')\<rparr>) db2 = (Inr (), db3)"
  proof -
    have "list_all (\<lambda>c. if cid c = i
             then check_clause (c\<lparr>valid_to := Some now, confidence := k,
                    metadata := json_set (metadata c) ''archived_reason''
                                  (JStr ''confidence_decay'')\<rparr>) else True) (clauses db2)"
      unfolding c2 list.pred_map using ok k
      by (auto simp: list_all_iff check_clause_def)
    then show ?thesis unfolding db3_def by (rule update_clauses_checked_ok)
  qed
  have c3: "clauses db3 = map (\<lambda>c. if cid c = i
                   then c\<lparr>confidence := k, valid_to := Some now,
                          metadata := json_set (metadata c) ''archived_reason''
                                        (JStr ''confidence_decay'')\<rparr>
                   else c) (clauses db)"
    unfolding db3_def clauses_update_clauses c2 map_map
    by (intro map_cong refl) simp
  have f3: "find (\<lambda>c. cid c = i) (clauses db3)
      = Some (clause\<lparr>confidence := k, valid_to := Some now,
                          metadata := json_set (metadata clause) ''archived_reason''
                                        (JStr ''confidence_decay'')\<rparr>)"
    unfolding c3 by (subst find_update_cid) (simp_all add: ex)
  have a: "archiveClause i k now db2 = (Inr (), logDecay i k k ''archived_decay'' now db3)"
    by (simp add: archiveClause_def u3 f3)
  have r: "adjustConfidence cfg i x rsn now db = (Inr (), logDecay i k k ''archived_decay'' now db3)"
    using low by (simp add: adjustConfidence_def ex k_def [symmetric] u1 db2_def [symmetric] a Let_def)
  have l: "decay_log (logDecay i k k ''archived_decay'' now db3) = decay_log db @
         [\<lparr>dl_id = next_uuid db, dl_clause_id = i, previous_confidence = confidence clause,
           new_confidence = k, reason = rsn, occurred_at = now\<rparr>,
          \<lparr>dl_id = Suc (next_uuid db), dl_clause_id = i, previous_confidence = k,
           new_confidence = k, reason = ''archived_decay'', occurred_at = now\<rparr>]"
    by (simp add: logDecay_def uuidv7_def db3_def db2_def db1_def update_clauses_def)
  from r c3 l show ?thesis unfolding k_def by simp
qed

theorem adjustConfidence_below_floor_archives_witness:
  "find (\<lambda>c. cid c = 0) (clauses stale_db) = Some stale_clause
   \<and> list_all check_clause (clauses stale_db)
   \<and> max 0 (min 1 (0.05::real)) < minConfidence decay_cfg
   \<and> (\<exists>db'. adjustConfidence decay_cfg 0 0.05 ''manual_adjustment'' 5000 stale_db = (Inr (), db')
         \<and> map valid_to (clauses db') = [Some 5000]
         \<and> map confidence (clauses db') = [0.05])"
proof -
  have h: "find (\<lambda>c. cid c = 0) (clauses stale_db) = Some stale_clause"
    "list_all check_clause (clauses stale_db)"
    "max 0 (min 1 (0.05::real)) < minConfidence decay_cfg"
    by (simp_all add: stale_db_def stale_clause_def check_clause_def decay_cfg_def)
  from adjustConfidence_below_floor_archives [OF h, of "''manual_adjustment''" 5000]
  obtain db' where
    "adjustConfidence decay_cfg 0 0.05 ''manual_adjustment'' 5000 stale_db = (Inr (), db')"
    "clauses db' =
         map (\<lambda>c. if cid c = 0
                   then c\<lparr>confidence := max 0 (min 1 0.05), valid_to := Some 5000,
                          metadata := json_set (metadata c) ''archived_reason''
                                        (JStr ''confidence_decay'')\<rparr>
                   else c) (clauses stale_db)"
    by blast
  then have "\<exists>db'. adjustConfidence decay_cfg 0 0.05 ''manual_adjustment'' 5000 stale_db = (Inr (), db')
         \<and> map valid_to (clauses db') = [Some 5000]
         \<and> map confidence (clauses db') = [0.05]"
    by (simp add: stale_db_def stale_clause_def)
  with h show ?thesis by blast
qed

section \<open>Confidence stays in [0,1]\<close>

text \<open>
  The store never clamps in \<open>create\<close> or \<open>update\<close>; the range is kept by the CHECK
  constraint of the table, which makes an out-of-range write fail.
\<close>

lemma range_logDecay [simp]: "confidence_in_range (logDecay i p n r now db) = confidence_in_range db"
  by (simp add: confidence_in_range_def)

lemma range_logAccess [simp]: "confidence_in_range (logAccess i a x now db) = confidence_in_range db"
  by (simp add: confidence_in_range_def)

lemma range_bump_counter [simp]: "confidence_in_range (bump_counter k db) = confidence_in_range db"
  by (simp add: confidence_in_range_def)

lemma range_setMetadata [simp]: "confidence_in_range (setMetadata k v db) = confidence_in_range db"
  by (simp add: confidence_in_range_def)

lemma range_uuidv7 [simp]: "confidence_in_range (snd (uuidv7 db)) = confidence_in_range db"
  by (simp add: confidence_in_range_def uuidv7_def)

lemma range_insert_clause:
  "confidence_in_range db \<Longrightarrow> confidence_in_range (snd (insert_clause c db))"
  by (simp add: confidence_in_range_def insert_clause_def check_clause_def)

lemma range_update_clauses:
  "(\<And>c. confidence (st c) = confidence c) \<Longrightarrow> confidence_in_range db
     \<Longrightarrow> confidence_in_range (update_clauses wh st db)"
  by (auto simp: confidence_in_range_def list_all_iff)

lemma range_update_clauses_checked:
  "confidence_in_range db \<Longrightarrow> confidence_in_range (snd (update_clauses_checked wh st db))"
  by (auto simp: confidence_in_range_def update_clauses_checked_def list_all_iff check_clause_def)

lemma range_create: "confidence_in_range db \<Longrightarrow> confidence_in_range (snd (create input now db))"
  by (simp add: create_def new_clause_def Let_def uuidv7_def insert_clause_def confidence_in_range_def
        check_clause_def)

lemma range_get: "confidence_in_range db \<Longrightarrow> confidence_in_range (snd (get i now db))"
  by (simp add: get_def range_update_clauses split: option.splits)

lemma range_invalidate: "confidence_in_range db \<Longrightarrow> confidence_in_range (invalidate i rsn now db)"
  by (simp add: invalidate_def range_update_clauses)

lemma range_update: "confidence_in_range db \<Longrightarrow> confidence_in_range (snd (update i u now db))"
proof -
  assume a: "confidence_in_range db"
  show ?thesis
  proof (cases "get i now db")
    case (Pair r db1)
    then have g: "confidence_in_range db1" using range_get [OF a, of i now] by simp
    show ?thesis
    proof (cases r)
      case None
      with Pair g show ?thesis by (simp add: update_def)
    next
      case (Some existing)
      have "confidence_in_range (snd (case update_clauses_checked (\<lambda>c. cid c = i) (apply_updates u) db1 of
                  (Inl e, db2) \<Rightarrow> (Inl e, db2)
                | (Inr v, db2) \<Rightarrow> (case get i now db2 of (r, db3) \<Rightarrow> (Inr r, db3))))"
      proof (rule snd_case_result)
        show "confidence_in_range (snd (update_clauses_checked (\<lambda>c. cid c = i) (apply_updates u) db1))"
          using g by (rule range_update_clauses_checked)
      next
        fix v d assume "update_clauses_checked (\<lambda>c. cid c = i) (apply_updates u) db1 = (Inr v, d)"
        then have "confidence_in_range d"
          using range_update_clauses_checked [OF g, of "\<lambda>c. cid c = i" "apply_updates u"] by simp
        then show "confidence_in_range (snd (case get i now d of (r, db3) \<Rightarrow> (Inr r, db3)))"
          using range_get [of d i now] by (cases "get i now d") simp
      qed
      with Pair Some g show ?thesis by (simp add: update_def)
    qed
  qed
qed

lemma range_reinforce: "confidence_in_range db \<Longrightarrow> confidence_in_range (snd (reinforce i amount now db))"
proof -
  assume a: "confidence_in_range db"
  show ?thesis
  proof (cases "get i now db")
    case (Pair r db1)
    then have g: "confidence_in_range db1" using range_get [OF a, of i now] by simp
    show ?thesis
    proof (cases r)
      case None
      with Pair g show ?thesis by (simp add: reinforce_def)
    next
      case (Some clause)
      have "confidence_in_range (snd (case update_clauses_checked (\<lambda>c. cid c = i)
                     (\<lambda>c. c\<lparr>confidence := min 1 (confidence clause + amount),
                            reinforcement_count := reinforcement_count c + 1,
                            last_accessed := now,
                            access_count := access_count c + 1\<rparr>) db1 of
                (Inl e, db2) \<Rightarrow> (Inl e, db2)
              | (Inr u, db2) \<Rightarrow>
                  (Inr (),
                   logAccess i Reinforcement ''successful_use'' now
                     (logDecay i (confidence clause) (min 1 (confidence clause + amount))
                        ''reinforcement'' now db2))))"
      proof (rule snd_case_result)
        show "confidence_in_range (snd (update_clauses_checked (\<lambda>c. cid c = i)
                     (\<lambda>c. c\<lparr>confidence := min 1 (confidence clause + amount),
                            reinforcement_count := reinforcement_count c + 1,
                            last_accessed := now,
                            access_count := access_count c + 1\<rparr>) db1))"
          using g by (rule range_update_clauses_checked)
      next
        fix u d
        assume "update_clauses_checked (\<lambda>c. cid c = i)
                     (\<lambda>c. c\<lparr>confidence := min 1 (confidence clause + amount),
                            reinforcement_count := reinforcement_count c + 1,
                            last_accessed := now,
                            access_count := access_count c + 1\<rparr>) db1 = (Inr u, d)"
        then have "confidence_in_range d"
          using range_update_clauses_checked [OF g, of "\<lambda>c. cid c = i"
             "\<lambda>c. c\<lparr>confidence := min 1 (confidence clause + amount),
                            reinforcement_count := reinforcement_count c + 1,
                            last_accessed := now,
                            access_count := access_count c + 1\<rparr>"] by simp
        then show "confidence_in_range (snd (Inr (),
                   logAccess i Reinforcement ''successful_use'' now
                     (logDecay i (confidence clause) (min 1 (confidence clause + amount))
                        ''reinforcement'' now d)))"
          by simp
      qed
      then show ?thesis
        unfolding reinforce_def Pair Some by (simp add: Let_def)
    qed
  qed
qed

lemma range_createConflict:
  "confidence_in_range db \<Longrightarrow> confidence_in_range (snd (createConflict a b now db))"
  by (simp add: createConflict_def Let_def uuidv7_def confidence_in_range_def)

lemma range_processNewClause:
  assumes a: "confidence_in_range db"
  shows "confidence_in_range (snd (processNewClause input now db))"
proof -
  have c2: "confidence_in_range d'" if "confidence_in_range d" "create input now d = (x, d')" for d d' x
    using range_create [OF that(1), of input now] that(2) by simp
  have ins: "confidence_in_range (snd (case create input now d of
          (Inl e, db1) \<Rightarrow> (Inl e, db1) | (Inr cl, db1) \<Rightarrow> (Inr (g cl), db1)))"
    if "confidence_in_range d" for d and g :: "Clause \<Rightarrow> ProcessClauseResult"
  proof (rule snd_case_result)
    show "confidence_in_range (snd (create input now d))" using that by (rule range_create)
  next
    fix u d' assume "create input now d = (Inr u, d')"
    then show "confidence_in_range (snd (Inr (g u), d'))" using c2 [OF that] by simp
  qed
  have con: "confidence_in_range (snd (case create input now db of
          (Inl e, db1) \<Rightarrow> (Inl e, db1)
        | (Inr cl, db1) \<Rightarrow> (case createConflict old cl now db1 of (cf, db2) \<Rightarrow> (Inr (g cl cf), db2))))"
    for old and g :: "Clause \<Rightarrow> Conflict \<Rightarrow> ProcessClauseResult"
  proof (rule snd_case_result)
    show "confidence_in_range (snd (create input now db))" using a by (rule range_create)
  next
    fix u d assume "create input now db = (Inr u, d)"
    then have "confidence_in_range d" using c2 [OF a] by simp
    then have "confidence_in_range (snd (createConflict old u now d))" by (rule range_createConflict)
    then show "confidence_in_range (snd (case createConflict old u now d of (cf, db2) \<Rightarrow> (Inr (g u cf), db2)))"
      by (cases "createConflict old u now d") simp
  qed
  have rei: "confidence_in_range (snd (case reinforce j 0.05 now db of
          (Inl e, db1) \<Rightarrow> (Inl e, db1) | (Inr u, db1) \<Rightarrow> (Inr g, db1)))"
    for j and g :: ProcessClauseResult
  proof (rule snd_case_result)
    show "confidence_in_range (snd (reinforce j 0.05 now db))" using a by (rule range_reinforce)
  next
    fix u d assume "reinforce j 0.05 now db = (Inr u, d)"
    then show "confidence_in_range (snd (Inr g, d))"
      using range_reinforce [OF a, of j "0.05" now] by simp
  qed
  show ?thesis
  proof (cases "filter (\<lambda>c. subject c = in_subject input \<and> predicate c = in_predicate input
                         \<and> valid_to c = None \<and> confidence c > 0.3) (clauses db)")
    case Nil
    show ?thesis unfolding processNewClause_def Let_def Nil list.case by (rule ins [OF a])
  next
    case (Cons old others)
    show ?thesis
    proof (cases "analyzeRelation old input")
      case RelIdentical
      show ?thesis unfolding processNewClause_def Let_def Cons list.case RelIdentical Relation.case
        by (rule rei)
    next
      case RelSupersession
      show ?thesis unfolding processNewClause_def Let_def Cons list.case RelSupersession Relation.case
        by (rule ins [OF range_invalidate [OF a]])
    next
      case RelContradiction
      show ?thesis unfolding processNewClause_def Let_def Cons list.case RelContradiction Relation.case
        by (rule con)
    next
      case RelCoexistent
      show ?thesis unfolding processNewClause_def Let_def Cons list.case RelCoexistent Relation.case
        by (rule ins [OF a])
    qed
  qed
qed

lemma range_archiveClause:
  assumes a: "confidence_in_range db"
  shows "confidence_in_range (snd (archiveClause i n now db))"
  unfolding archiveClause_def
proof (rule snd_case_result)
  show "confidence_in_range (snd (update_clauses_checked (\<lambda>c. cid c = i)
             (\<lambda>c. c\<lparr>valid_to := Some now, confidence := n,
                    metadata := json_set (metadata c) ''archived_reason''
                                  (JStr ''confidence_decay'')\<rparr>) db))"
    using a by (rule range_update_clauses_checked)
next
  fix u d
  assume "update_clauses_checked (\<lambda>c. cid c = i)
             (\<lambda>c. c\<lparr>valid_to := Some now, confidence := n,
                    metadata := json_set (metadata c) ''archived_reason''
                                  (JStr ''confidence_decay'')\<rparr>) db = (Inr u, d)"
  then have "confidence_in_range d"
    using range_update_clauses_checked [OF a, of "\<lambda>c. cid c = i"
       "\<lambda>c. c\<lparr>valid_to := Some now, confidence := n,
                    metadata := json_set (metadata c) ''archived_reason''
                                  (JStr ''confidence_decay'')\<rparr>"] by simp
  then show "confidence_in_range (snd (case find (\<lambda>c. cid c = i) (clauses d) of
             None \<Rightarrow> (Inr (), d)
           | Some clause \<Rightarrow>
               (Inr (), logDecay i (confidence clause) n ''archived_decay'' now d)))"
    by (simp split: option.split)
qed

lemma range_applyDecay:
  assumes a: "confidence_in_range db"
  shows "confidence_in_range (snd (applyDecay i old n now db))"
  unfolding applyDecay_def
proof (rule snd_case_result)
  show "confidence_in_range (snd (update_clauses_checked (\<lambda>c. cid c = i)
             (\<lambda>c. c\<lparr>confidence := n\<rparr>) db))"
    using a by (rule range_update_clauses_checked)
next
  fix u d
  assume "update_clauses_checked (\<lambda>c. cid c = i) (\<lambda>c. c\<lparr>confidence := n\<rparr>) db = (Inr u, d)"
  then have "confidence_in_range d"
    using range_update_clauses_checked [OF a, of "\<lambda>c. cid c = i" "\<lambda>c. c\<lparr>confidence := n\<rparr>"]
    by simp
  then show "confidence_in_range (snd (Inr (), logDecay i old n ''scheduled_decay'' now d))"
    by simp
qed

lemma run_loop_wet_Cons:
  "run_loop False cfg now (c # rest) rep db =
     (if decayed_confidence now c < minConfidence cfg
      then (case archiveClause (cid c) (decayed_confidence now c) now db of
              (Inl e, db1) \<Rightarrow> (Inl e, db1)
            | (Inr u, db1) \<Rightarrow>
                run_loop False cfg now rest
                  (rep\<lparr>processed := processed rep + 1\<rparr>
                      \<lparr>archived := archived (rep\<lparr>processed := processed rep + 1\<rparr>) + 1\<rparr>) db1)
      else if decayed_confidence now c < confidence c - 0.001
      then (case applyDecay (cid c) (confidence c) (decayed_confidence now c) now db of
              (Inl e, db1) \<Rightarrow> (Inl e, db1)
            | (Inr u, db1) \<Rightarrow>
                run_loop False cfg now rest
                  (rep\<lparr>processed := processed rep + 1\<rparr>
                      \<lparr>decayed := decayed (rep\<lparr>processed := processed rep + 1\<rparr>) + 1\<rparr>) db1)
      else run_loop False cfg now rest (rep\<lparr>processed := processed rep + 1\<rparr>) db)"
  by (simp only: run_loop.simps Let_def not_False_eq_True if_True)

lemma range_run_loop_wet:
  "confidence_in_range db \<Longrightarrow> confidence_in_range (snd (run_loop False cfg now rows rep db))"
proof (induction rows arbitrary: rep db)
  case Nil
  then show ?case by simp
next
  case (Cons r rows)
  have ar: "confidence_in_range (snd (case archiveClause (cid r) n now db of
                       (Inl e, db1) \<Rightarrow> (Inl e, db1)
                     | (Inr u, db1) \<Rightarrow> run_loop False cfg now rows rp db1))" for n rp
  proof (rule snd_case_result)
    show "confidence_in_range (snd (archiveClause (cid r) n now db))"
      using Cons.prems by (rule range_archiveClause)
  next
    fix u d assume "archiveClause (cid r) n now db = (Inr u, d)"
    then have "confidence_in_range d" using range_archiveClause [OF Cons.prems, of "cid r" n now] by simp
    then show "confidence_in_range (snd (run_loop False cfg now rows rp d))" by (rule Cons.IH)
  qed
  have ap: "confidence_in_range (snd (case applyDecay (cid r) old n now db of
                       (Inl e, db1) \<Rightarrow> (Inl e, db1)
                     | (Inr u, db1) \<Rightarrow> run_loop False cfg now rows rp db1))" for old n rp
  proof (rule snd_case_result)
    show "confidence_in_range (snd (applyDecay (cid r) old n now db))"
      using Cons.prems by (rule range_applyDecay)
  next
    fix u d assume "applyDecay (cid r) old n now db = (Inr u, d)"
    then have "confidence_in_range d" using range_applyDecay [OF Cons.prems, of "cid r" old n now] by simp
    then show "confidence_in_range (snd (run_loop False cfg now rows rp d))" by (rule Cons.IH)
  qed
  show ?case
    unfolding run_loop_wet_Cons
    by (simp only: split: if_split) (intro conjI impI ar ap Cons.IH [OF Cons.prems])
qed

lemma range_run_loop:
  "confidence_in_range db \<Longrightarrow> confidence_in_range (snd (run_loop dryRun cfg now rows rep db))"
proof (cases dryRun)
  case True
  assume "confidence_in_range db"
  with True run_loop_dry [of cfg now rows rep db] show ?thesis by auto
next
  case False
  assume "confidence_in_range db"
  with False show ?thesis by (simp add: range_run_loop_wet)
qed

lemma range_run:
  assumes a: "confidence_in_range db"
  shows "confidence_in_range (snd (run dryRun cfg now db))"
proof -
  have "confidence_in_range (snd (case run_loop dryRun cfg now rows (empty_report now) db of
             (Inl e, db1) \<Rightarrow> (Inl e, db1)
           | (Inr report, db1) \<Rightarrow>
               (Inr report,
                if \<not> dryRun then setMetadata ''last_decay_run'' (MetaTime now) db1 else db1)))" for rows
  proof (rule snd_case_result)
    show "confidence_in_range (snd (run_loop dryRun cfg now rows (empty_report now) db))"
      using a by (rule range_run_loop)
  next
    fix u d assume "run_loop dryRun cfg now rows (empty_report now) db = (Inr u, d)"
    then have "confidence_in_range d"
      using range_run_loop [OF a, of dryRun cfg now rows "empty_report now"] by simp
    then show "confidence_in_range (snd (Inr u,
                if \<not> dryRun then setMetadata ''last_decay_run'' (MetaTime now) d else d))"
      by simp
  qed
  with a show ?thesis by (simp add: run_def Let_def)
qed

lemma range_adjustConfidence:
  assumes a: "confidence_in_range db"
  shows "confidence_in_range (snd (adjustConfidence cfg i x rsn now db))"
proof (cases "find (\<lambda>c. cid c = i) (clauses db)")
  case None
  with a show ?thesis by (simp add: adjustConfidence_def)
next
  case (Some clause)
  have "confidence_in_range (snd (case update_clauses_checked (\<lambda>c. cid c = i)
                     (\<lambda>c. c\<lparr>confidence := max 0 (min 1 x)\<rparr>) db of
                (Inl e, db1) \<Rightarrow> (Inl e, db1)
              | (Inr u, db1) \<Rightarrow>
                  let db2 = logDecay i (confidence clause) (max 0 (min 1 x)) rsn now db1
                  in if max 0 (min 1 x) < minConfidence cfg
                     then archiveClause i (max 0 (min 1 x)) now db2
                     else (Inr (), db2)))"
  proof (rule snd_case_result)
    show "confidence_in_range (snd (update_clauses_checked (\<lambda>c. cid c = i)
                     (\<lambda>c. c\<lparr>confidence := max 0 (min 1 x)\<rparr>) db))"
      using a by (rule range_update_clauses_checked)
  next
    fix u d
    assume "update_clauses_checked (\<lambda>c. cid c = i) (\<lambda>c. c\<lparr>confidence := max 0 (min 1 x)\<rparr>) db = (Inr u, d)"
    then have "confidence_in_range d"
      using range_update_clauses_checked [OF a, of "\<lambda>c. cid c = i" "\<lambda>c. c\<lparr>confidence := max 0 (min 1 x)\<rparr>"]
      by simp
    then have "confidence_in_range (logDecay i (confidence clause) (max 0 (min 1 x)) rsn now d)"
      by simp
    then show "confidence_in_range (snd (let db2 = logDecay i (confidence clause) (max 0 (min 1 x)) rsn now d
                  in if max 0 (min 1 x) < minConfidence cfg
                     then archiveClause i (max 0 (min 1 x)) now db2
                     else (Inr (), db2)))"
      using range_archiveClause by (simp add: Let_def)
  qed
  with Some show ?thesis by (simp add: adjustConfidence_def Let_def)
qed

lemma range_delete_clauses:
  "confidence_in_range db \<Longrightarrow> confidence_in_range (delete_clauses wh db)"
  by (simp add: confidence_in_range_def delete_clauses_def list_all_iff)

lemma range_mark_resolved [simp]:
  "confidence_in_range (mark_resolved i r now db) = confidence_in_range db"
  by (simp add: confidence_in_range_def mark_resolved_def)

lemma range_reinforce_DecayRunner:
  assumes a: "confidence_in_range db"
  shows "confidence_in_range (snd (reinforce_DecayRunner i amount now db))"
proof (cases "find (\<lambda>c. cid c = i) (clauses db)")
  case None
  with a show ?thesis by (simp add: reinforce_DecayRunner_def)
next
  case (Some clause)
  define st where "st = (\<lambda>c::Clause. c\<lparr>confidence := min 1 (confidence clause + amount),
                            reinforcement_count := reinforcement_count c + 1,
                            last_accessed := now,
                            access_count := access_count c + 1\<rparr>)"
  obtain x d where u: "update_clauses_checked (\<lambda>c. cid c = i) st db = (x, d)"
    by (cases "update_clauses_checked (\<lambda>c. cid c = i) st db")
  from range_update_clauses_checked [OF a, of "\<lambda>c. cid c = i" st] u
  have d: "confidence_in_range d" by simp
  show ?thesis
    using d u [unfolded st_def] Some
    by (cases x) (simp_all add: reinforce_DecayRunner_def Let_def)
qed

lemma range_resolveConflict:
  assumes a: "confidence_in_range db"
  shows "confidence_in_range (snd (resolveConflict cfg i strat now db))"
proof (cases "find (\<lambda>c. conflict_id c = i) (conflicts db)")
  case None
  with a show ?thesis by (simp add: resolveConflict_def Let_def)
next
  case (Some conflict)
  show ?thesis
  proof (cases "status conflict = Pending")
    case False
    with a Some show ?thesis by (simp add: resolveConflict_def Let_def)
  next
    case True
    obtain clauseA db1 where g1: "get (clause_a_id conflict) now db = (clauseA, db1)"
      by (cases "get (clause_a_id conflict) now db")
    obtain clauseB db2 where g2: "get (clause_b_id conflict) now db1 = (clauseB, db2)"
      by (cases "get (clause_b_id conflict) now db1")
    have r1: "confidence_in_range db1" using range_get [OF a, of "clause_a_id conflict" now] g1 by simp
    have r2: "confidence_in_range db2" using range_get [OF r1, of "clause_b_id conflict" now] g2 by simp
    show ?thesis
    proof (cases "\<exists>x y. clauseA = Some x \<and> clauseB = Some y")
      case False
      then have "clauseA = None \<or> (\<exists>x. clauseA = Some x \<and> clauseB = None)"
        by (cases clauseA; cases clauseB) auto
      then show ?thesis
        using r2 unfolding resolveConflict_def Let_def Some option.case g1 g2 prod.case
        by (auto simp: True)
    next
      case yes: True
      then obtain x y where xy: "clauseA = Some x" "clauseB = Some y" by blast
      define useStrategy where "useStrategy = (case strat of Some s \<Rightarrow> s | None \<Rightarrow> strategy cfg)"
      define aWins where "aWins = (if useStrategy = HighestConfidence
                                             then confidence x \<ge> confidence y
                                             else recorded_at x > recorded_at y)"
      define kept where "kept = (if aWins then x else y)"
      define lost where "lost = (if aWins then y else x)"
      define db3 where "db3 = invalidate (cid lost)
            (Some (''superseded_by:'' @ string_of_nat (cid kept))) now db2"
      have r3: "confidence_in_range db3"
        unfolding db3_def using r2 by (rule range_invalidate)
      have upd: "confidence_in_range (snd (update (cid kept) u now db3))" for u
        using r3 by (rule range_update)
      show ?thesis
      proof (cases "useStrategy = Manual")
        case True
        then show ?thesis
          using r2 unfolding resolveConflict_def Let_def Some option.case g1 g2 prod.case xy
            useStrategy_def [symmetric]
          by (simp add: \<open>status conflict = Pending\<close>)
      next
        case False
        show ?thesis
        proof (cases "preserveHistory cfg")
          case False
          then show ?thesis
            using r3 \<open>useStrategy \<noteq> Manual\<close>
            unfolding resolveConflict_def Let_def Some option.case g1 g2 prod.case xy
              useStrategy_def [symmetric] aWins_def [symmetric] kept_def [symmetric]
              lost_def [symmetric] db3_def [symmetric]
            by (simp add: \<open>status conflict = Pending\<close>)
        next
          case ph: True
          show ?thesis
          proof (cases "supersedes_push (metadata kept) (cid lost)")
            case None
            then show ?thesis
              using r3 ph \<open>useStrategy \<noteq> Manual\<close>
              unfolding resolveConflict_def Let_def Some option.case g1 g2 prod.case xy
                useStrategy_def [symmetric] aWins_def [symmetric] kept_def [symmetric]
                lost_def [symmetric] db3_def [symmetric]
              by (simp add: \<open>status conflict = Pending\<close>)
          next
            case (Some md)
            obtain res db4 where u: "update (cid kept)
                 \<lparr>up_confidence = None, up_decay_rate = None,
                  up_tags = None, up_metadata = Some md,
                  up_natural_form = None\<rparr> now db3 = (res, db4)"
              by (cases "update (cid kept)
                 \<lparr>up_confidence = None, up_decay_rate = None,
                  up_tags = None, up_metadata = Some md,
                  up_natural_form = None\<rparr> now db3")
            have r4: "confidence_in_range db4" using upd [of "\<lparr>up_confidence = None, up_decay_rate = None,
                  up_tags = None, up_metadata = Some md,
                  up_natural_form = None\<rparr>"] u by simp
            show ?thesis
              using r4 ph \<open>useStrategy \<noteq> Manual\<close> Some u
              unfolding resolveConflict_def Let_def \<open>find (\<lambda>c. conflict_id c = i) (conflicts db) = Some conflict\<close>
                option.case g1 g2 prod.case xy
                useStrategy_def [symmetric] aWins_def [symmetric] kept_def [symmetric]
                lost_def [symmetric] db3_def [symmetric]
              by (cases res) (simp_all add: \<open>status conflict = Pending\<close>)
          qed
        qed
      qed
    qed
  qed
qed


lemma range_resolve_loop:
  "confidence_in_range db \<Longrightarrow> confidence_in_range (snd (resolve_loop cfg strat now ids counts db))"
proof (induction ids arbitrary: counts db)
  case Nil
  then show ?case by simp
next
  case (Cons i ids)
  obtain x d where r: "resolveConflict cfg i strat now db = (x, d)"
    by (cases "resolveConflict cfg i strat now db")
  from range_resolveConflict [OF Cons.prems, of cfg i strat now] r
  have d: "confidence_in_range d" by simp
  show ?case
    using Cons.IH [OF d] r by (cases x) simp_all
qed

lemma range_resolveAllConflicts:
  "confidence_in_range db \<Longrightarrow> confidence_in_range (snd (resolveAllConflicts cfg strat now db))"
  by (simp add: resolveAllConflicts_def range_resolve_loop)

lemma snd_case_range:
  "confidence_in_range (snd r)
    \<Longrightarrow> (\<And>u d. confidence_in_range d \<Longrightarrow> confidence_in_range (snd (f u d)))
    \<Longrightarrow> confidence_in_range (snd (case r of (Inl e, d) \<Rightarrow> (Inl e, d) | (Inr u, d) \<Rightarrow> f u d))"
  by (cases r; cases "fst r") auto

lemma range_processWithDeduplication:
  assumes a: "confidence_in_range db"
  shows "confidence_in_range (snd (processWithDeduplication cfg sq num input now db))"
proof (cases "findDuplicate_runs_match cfg input db
         \<and> \<not> match_accepts sq (duplicate_fts_query (in_natural_form input))")
  case True
  with a show ?thesis by (simp add: processWithDeduplication_def)
next
  case False
  define dupCheck where "dupCheck = findDuplicate cfg (match_rows sq) input db"
  show ?thesis
  proof (cases "if found dupCheck then dup_clause dupCheck else None")
    case None
    then show ?thesis
      using range_processNewClause [OF a, of input now]
      unfolding processWithDeduplication_def if_not_P [OF False] Let_def dupCheck_def [symmetric]
      by simp
  next
    case (Some dup)
    show ?thesis
    proof (cases "onDuplicate cfg")
      case DupReinforce
      show ?thesis
        unfolding processWithDeduplication_def if_not_P [OF False] Let_def dupCheck_def [symmetric]
          Some option.case DupReinforce OnDuplicate.case
        apply (rule snd_case_range)
         apply (rule range_reinforce [OF a])
        apply simp
        done
    next
      case DupSkip
      then show ?thesis
        using Some a
        unfolding processWithDeduplication_def if_not_P [OF False] Let_def dupCheck_def [symmetric]
        by simp
    next
      case DupMerge
      show ?thesis
        unfolding processWithDeduplication_def if_not_P [OF False] Let_def dupCheck_def [symmetric]
          Some option.case DupMerge OnDuplicate.case
        apply (rule snd_case_range)
         apply (rule range_update [OF a])
        apply (rule snd_case_range)
         apply (erule range_reinforce)
        apply simp
        done
    qed
  qed
qed

lemma range_retriever_logAccess:
  assumes "confidence_in_range db"
  shows "confidence_in_range (retriever_logAccess i t ctx now db)"
proof -
  have 1: "confidence_in_range (d\<lparr>access_log := x\<rparr>) = confidence_in_range d" for d x
    by (simp add: confidence_in_range_def)
  have 2: "confidence_in_range (db\<lparr>next_uuid := n\<rparr>)" for n
    using assms by (simp add: confidence_in_range_def)
  show ?thesis
    by (simp add: retriever_logAccess_def uuidv7_def Let_def 1 2 range_update_clauses)
qed

lemma range_log_all:
  "confidence_in_range db
     \<Longrightarrow> confidence_in_range
           (foldl (\<lambda>d sc. retriever_logAccess (cid (sc_clause sc)) t ctx now d) db scs)"
  by (induction scs arbitrary: db) (simp_all add: range_retriever_logAccess)

lemma range_retrieve:
  assumes a: "confidence_in_range db"
  shows "confidence_in_range (snd (retrieve r sq query opts now db))"
proof -
  have "confidence_in_range (snd (case x of
            Inl e \<Rightarrow> (Inl e, db)
          | Inr keywordResults \<Rightarrow>
              (case y of
                 Inl e \<Rightarrow> (Inl e, db)
               | Inr semanticResults \<Rightarrow>
                   (Inr (f keywordResults semanticResults),
                    foldl (\<lambda>d sc. retriever_logAccess (cid (sc_clause sc)) Retrieval query now d)
                      db (g keywordResults semanticResults)))))"
    for x :: "error + (Clause \<times> real) list" and y :: "error + (nat \<times> real) list"
      and f :: "(Clause \<times> real) list \<Rightarrow> (nat \<times> real) list \<Rightarrow> RetrievalResult"
      and g :: "(Clause \<times> real) list \<Rightarrow> (nat \<times> real) list \<Rightarrow> ScoredClause list"
    using a by (cases x; cases y) (simp_all add: range_log_all)
  then show ?thesis
    unfolding retrieve_def Let_def .
qed

lemma create_stores_given:
  assumes "in_confidence input = Some x" "0 \<le> x" "x \<le> 1"
    and "0 \<le> (case in_decay_rate input of Some r \<Rightarrow> r | None \<Rightarrow> DEFAULT_DECAY_RATES (in_type input))"
  shows "\<exists>c db'. create input now db = (Inr c, db') \<and> confidence c = x
          \<and> clauses db' = clauses db @ [c]"
  using assms
  by (simp add: create_def new_clause_def Let_def uuidv7_def insert_clause_def check_clause_def)


lemma update_stores_given:
  assumes c: "up_confidence u = Some x" "0 \<le> x" "x \<le> 1"
    and r: "case up_decay_rate u of Some r \<Rightarrow> 0 \<le> r | None \<Rightarrow> True"
    and ok: "list_all check_clause (clauses db)"
    and i: "i \<in> cid ` set (clauses db)"
  shows "\<exists>row db'. update i u now db = (Inr (Some row), db') \<and> confidence row = x
           \<and> map confidence (clauses db')
               = map (\<lambda>c. if cid c = i then x else confidence c) (clauses db)"
proof -
  from find_Some_cid [OF i] obtain e where e: "find (\<lambda>c. cid c = i) (clauses db) = Some e"
    by blast
  define bump where "bump = (\<lambda>c::Clause. c\<lparr>last_accessed := now, access_count := access_count c + 1\<rparr>)"
  define db1 where "db1 = update_clauses (\<lambda>c. cid c = i) bump db"
  define db2 where "db2 = update_clauses (\<lambda>c. cid c = i) (apply_updates u) db1"
  define db3 where "db3 = update_clauses (\<lambda>c. cid c = i) bump db2"
  have cb [simp]: "cid (bump c) = cid c" "confidence (bump c) = confidence c"
    "check_clause (bump c) = check_clause c" for c
    by (simp_all add: bump_def check_clause_def)
  have ca [simp]: "cid (apply_updates u c) = cid c" "confidence (apply_updates u c) = x" for c
    using c(1) by (simp_all add: apply_updates_def)
  have g: "get i now db = (Some e, db1)"
    by (simp add: get_def e db1_def bump_def)
  have nu: "\<not> no_updates u" using c(1) by (simp add: no_updates_def)
  have c1: "clauses db1 = map (\<lambda>c. if cid c = i then bump c else c) (clauses db)"
    by (simp add: db1_def update_clauses_def)
  have c2: "clauses db2 = map (\<lambda>c. if cid c = i then apply_updates u c else c) (clauses db1)"
    by (simp add: db2_def update_clauses_def)
  have c3: "clauses db3 = map (\<lambda>c. if cid c = i then bump c else c) (clauses db2)"
    by (simp add: db3_def update_clauses_def)
  have ok1: "list_all check_clause (clauses db1)"
    using ok unfolding c1 list_all_iff by auto
  have ch: "check_clause (apply_updates u c)" if "check_clause c" for c
  proof (cases "up_decay_rate u")
    case None
    with that c show ?thesis by (simp add: check_clause_def apply_updates_def)
  next
    case (Some d)
    with that c r show ?thesis by (simp add: check_clause_def apply_updates_def)
  qed
  have "list_all (\<lambda>c. if cid c = i then check_clause (apply_updates u c) else True) (clauses db1)"
    using ok1 ch unfolding list_all_iff by simp
  then have uc: "update_clauses_checked (\<lambda>c. cid c = i) (apply_updates u) db1 = (Inr (), db2)"
    by (simp add: update_clauses_checked_def db2_def)
  have ids1: "map cid (clauses db1) = map cid (clauses db)"
    unfolding c1 by (induction "clauses db") simp_all
  have ids2: "map cid (clauses db2) = map cid (clauses db1)"
    unfolding c2 by (induction "clauses db1") simp_all
  have "cid ` set (clauses db2) = cid ` set (clauses db)"
    using ids1 ids2 by (metis list.set_map)
  with i have "i \<in> cid ` set (clauses db2)" by simp
  from find_Some_cid [OF this] obtain row where
    row: "find (\<lambda>c. cid c = i) (clauses db2) = Some row" by blast
  then have rin: "row \<in> set (clauses db2)" and ri: "cid row = i"
    by (auto simp: find_Some_iff)
  from rin obtain c0 where c0: "row = (if cid c0 = i then apply_updates u c0 else c0)"
    unfolding c2 set_map by blast
  have "cid c0 = i"
  proof (rule ccontr)
    assume "cid c0 \<noteq> i"
    with c0 have "row = c0" by simp
    with ri \<open>cid c0 \<noteq> i\<close> show False by simp
  qed
  with c0 have cr: "confidence row = x" by simp
  have g2: "get i now db2 = (Some row, db3)"
    by (simp add: get_def row db3_def bump_def)
  have u: "update i u now db = (Inr (Some row), db3)"
    by (simp add: update_def g nu uc g2)
  have m1: "map confidence (map (\<lambda>c. if cid c = i then bump c else c) xs) = map confidence xs" for xs
    by (induction xs) simp_all
  have m2: "map confidence (map (\<lambda>c. if cid c = i then apply_updates u c else c) xs)
      = map (\<lambda>c. if cid c = i then x else confidence c) xs" for xs
    by (induction xs) simp_all
  have m3: "map (\<lambda>c. if cid c = i then x else confidence c) (map (\<lambda>c. if cid c = i then bump c else c) xs)
      = map (\<lambda>c. if cid c = i then x else confidence c) xs" for xs
    by (induction xs) simp_all
  have m: "map confidence (clauses db3)
      = map (\<lambda>c. if cid c = i then x else confidence c) (clauses db)"
    unfolding c3 m1 c2 m2 c1 m3 ..
  from u cr m show ?thesis by blast
qed

lemma create_default_confidence:
  assumes "in_confidence input = None"
    and "0 \<le> (case in_decay_rate input of Some r \<Rightarrow> r | None \<Rightarrow> DEFAULT_DECAY_RATES (in_type input))"
  shows "\<exists>c db'. create input now db = (Inr c, db') \<and> confidence c = 0.8
          \<and> clauses db' = clauses db @ [c]"
  using assms
  by (simp add: create_def new_clause_def Let_def uuidv7_def insert_clause_def check_clause_def)

lemma create_rejects:
  assumes "in_confidence input = Some x" "x < 0 \<or> 1 < x"
  shows "fst (create input now db) = Inl SqliteConstraint
     \<and> clauses (snd (create input now db)) = clauses db"
  using assms
  by (auto simp: create_def new_clause_def Let_def uuidv7_def insert_clause_def check_clause_def)

lemma update_rejects:
  assumes "up_confidence u = Some x" "x < 0 \<or> 1 < x" "i \<in> cid ` set (clauses db)"
  shows "fst (update i u now db) = Inl SqliteConstraint
     \<and> map confidence (clauses (snd (update i u now db))) = map confidence (clauses db)"
proof -
  from find_Some_cid [OF assms(3)] obtain r where r: "find (\<lambda>c. cid c = i) (clauses db) = Some r"
    by blast
  define db1 where "db1 = update_clauses (\<lambda>c. cid c = i)
             (\<lambda>c. c\<lparr>last_accessed := now, access_count := access_count c + 1\<rparr>) db"
  have g: "get i now db = (Some r, db1)" by (simp add: get_def r db1_def)
  have nu: "\<not> no_updates u" using assms(1) by (simp add: no_updates_def)
  obtain c where c: "c \<in> set (clauses db)" "cid c = i" using assms(3) by auto
  define c' where "c' = c\<lparr>last_accessed := now, access_count := access_count c + 1\<rparr>"
  have "c' \<in> set (clauses db1)"
    using c by (force simp: db1_def c'_def)
  moreover have "cid c' = i" "\<not> check_clause (apply_updates u c')"
    using c assms(1,2) by (auto simp: c'_def check_clause_def apply_updates_def)
  ultimately have "\<not> list_all (\<lambda>c. if cid c = i then check_clause (apply_updates u c) else True) (clauses db1)"
    unfolding list_all_iff by (intro notI) (metis (full_types))
  then have "update_clauses_checked (\<lambda>c. cid c = i) (apply_updates u) db1 = (Inl SqliteConstraint, db1)"
    by (simp add: update_clauses_checked_def)
  then have "update i u now db = (Inl SqliteConstraint, db1)"
    by (simp add: update_def g nu)
  moreover have "map confidence (clauses db1) = map confidence (clauses db)"
    by (simp add: db1_def comp_def cong: map_cong)
  ultimately show ?thesis by simp
qed

text \<open>
  C1, as stated, fails: \<open>create\<close> with confidence 1.5 does not persist a clamped value.
  The INSERT violates the CHECK constraint, the call throws and the table is as before.
\<close>

theorem create_does_not_clamp:
  "fst (create (denver_input\<lparr>in_confidence := Some 1.5\<rparr>) 2000 seattle_db) = Inl SqliteConstraint
   \<and> clauses (snd (create (denver_input\<lparr>in_confidence := Some 1.5\<rparr>) 2000 seattle_db))
       = [seattle_clause]"
  by (simp add: create_def new_clause_def Let_def uuidv7_def insert_clause_def check_clause_def denver_input_def
        seattle_db_def empty_db_def)

text \<open>
  C1, amended: every stored confidence stays within [0,1] under every operation that
  writes the table, whether it returns or throws: \<open>create\<close>, \<open>get\<close>, \<open>update\<close>,
  \<open>invalidate\<close>, \<open>reinforce\<close>, \<open>processNewClause\<close>, \<open>processWithDeduplication\<close>,
  \<open>resolveConflict\<close> and \<open>resolveAllConflicts\<close> of the clause store; the decay run,
  \<open>reinforce\<close> and \<open>adjustConfidence\<close> of the decay runner; \<open>retrieve\<close>, which records
  the accesses; and the removal of a pack's clauses. The other operations of the engine
  write the table only by calling these. \<open>create\<close> stores 0.8 when the input has no
  confidence, and a confidence within [0,1] as it is given (the decay rate not being
  negative). An input confidence outside [0,1] is not clamped: \<open>create\<close> throws a
  constraint error and stores nothing. \<open>update\<close> of an existing clause stores a
  confidence within [0,1] as it is given, and with a confidence outside [0,1] it throws a
  constraint error and changes no confidence.
\<close>

theorem confidence_stays_in_range:
  assumes "confidence_in_range db"
  shows "confidence_in_range (snd (create input now db))
     \<and> confidence_in_range (snd (get i now db))
     \<and> confidence_in_range (snd (update i u now db))
     \<and> confidence_in_range (invalidate i rsn now db)
     \<and> confidence_in_range (snd (reinforce i amount now db))
     \<and> confidence_in_range (snd (processNewClause input now db))
     \<and> confidence_in_range (snd (processWithDeduplication dcfg sq num input now db))
     \<and> confidence_in_range (snd (resolveConflict ccfg k strat now db))
     \<and> confidence_in_range (snd (resolveAllConflicts ccfg strat now db))
     \<and> confidence_in_range (snd (run dryRun cfg now db))
     \<and> confidence_in_range (snd (reinforce_DecayRunner i amount now db))
     \<and> confidence_in_range (snd (adjustConfidence cfg i x rsn' now db))
     \<and> confidence_in_range (snd (retrieve r sq query opts now db))
     \<and> confidence_in_range (delete_clauses wh db)
     \<and> (in_confidence input = None
          \<and> 0 \<le> (case in_decay_rate input of Some r \<Rightarrow> r | None \<Rightarrow> DEFAULT_DECAY_RATES (in_type input))
          \<longrightarrow> (\<exists>c db'. create input now db = (Inr c, db') \<and> confidence c = 0.8
                  \<and> clauses db' = clauses db @ [c]))
     \<and> (in_confidence input = Some y \<and> 0 \<le> y \<and> y \<le> 1
          \<and> 0 \<le> (case in_decay_rate input of Some r \<Rightarrow> r | None \<Rightarrow> DEFAULT_DECAY_RATES (in_type input))
          \<longrightarrow> (\<exists>c db'. create input now db = (Inr c, db') \<and> confidence c = y
                  \<and> clauses db' = clauses db @ [c]))
     \<and> (in_confidence input = Some y \<and> (y < 0 \<or> 1 < y)
          \<longrightarrow> fst (create input now db) = Inl SqliteConstraint
              \<and> clauses (snd (create input now db)) = clauses db)
     \<and> (up_confidence u = Some y \<and> 0 \<le> y \<and> y \<le> 1
          \<and> (case up_decay_rate u of Some r \<Rightarrow> 0 \<le> r | None \<Rightarrow> True)
          \<and> list_all check_clause (clauses db) \<and> i \<in> cid ` set (clauses db)
          \<longrightarrow> (\<exists>row db'. update i u now db = (Inr (Some row), db') \<and> confidence row = y
                  \<and> map confidence (clauses db')
                      = map (\<lambda>c. if cid c = i then y else confidence c) (clauses db)))
     \<and> (up_confidence u = Some y \<and> (y < 0 \<or> 1 < y) \<and> i \<in> cid ` set (clauses db)
          \<longrightarrow> fst (update i u now db) = Inl SqliteConstraint
              \<and> map confidence (clauses (snd (update i u now db))) = map confidence (clauses db))"
proof -
  note a = assms
  have ops: "confidence_in_range (snd (create input now db))"
    "confidence_in_range (snd (get i now db))"
    "confidence_in_range (snd (update i u now db))"
    "confidence_in_range (invalidate i rsn now db)"
    "confidence_in_range (snd (reinforce i amount now db))"
    "confidence_in_range (snd (processNewClause input now db))"
    "confidence_in_range (snd (processWithDeduplication dcfg sq num input now db))"
    "confidence_in_range (snd (resolveConflict ccfg k strat now db))"
    "confidence_in_range (snd (resolveAllConflicts ccfg strat now db))"
    "confidence_in_range (snd (run dryRun cfg now db))"
    "confidence_in_range (snd (reinforce_DecayRunner i amount now db))"
    "confidence_in_range (snd (adjustConfidence cfg i x rsn' now db))"
    "confidence_in_range (snd (retrieve r sq query opts now db))"
    "confidence_in_range (delete_clauses wh db)"
    using a
    by (simp_all add: range_create range_get range_update range_invalidate range_reinforce
          range_processNewClause range_processWithDeduplication range_resolveConflict
          range_resolveAllConflicts range_run range_reinforce_DecayRunner range_adjustConfidence
          range_retrieve range_delete_clauses)
  have c1: "in_confidence input = None
          \<and> 0 \<le> (case in_decay_rate input of Some r \<Rightarrow> r | None \<Rightarrow> DEFAULT_DECAY_RATES (in_type input))
          \<longrightarrow> (\<exists>c db'. create input now db = (Inr c, db') \<and> confidence c = 0.8
                  \<and> clauses db' = clauses db @ [c])"
    using create_default_confidence [of input now db] by simp
  have c2: "in_confidence input = Some y \<and> 0 \<le> y \<and> y \<le> 1
          \<and> 0 \<le> (case in_decay_rate input of Some r \<Rightarrow> r | None \<Rightarrow> DEFAULT_DECAY_RATES (in_type input))
          \<longrightarrow> (\<exists>c db'. create input now db = (Inr c, db') \<and> confidence c = y
                  \<and> clauses db' = clauses db @ [c])"
    using create_stores_given [of input y now db] by simp
  have c3: "in_confidence input = Some y \<and> (y < 0 \<or> 1 < y)
          \<longrightarrow> fst (create input now db) = Inl SqliteConstraint
              \<and> clauses (snd (create input now db)) = clauses db"
    using create_rejects [of input y now db] by simp
  have u1: "up_confidence u = Some y \<and> 0 \<le> y \<and> y \<le> 1
          \<and> (case up_decay_rate u of Some r \<Rightarrow> 0 \<le> r | None \<Rightarrow> True)
          \<and> list_all check_clause (clauses db) \<and> i \<in> cid ` set (clauses db)
          \<longrightarrow> (\<exists>row db'. update i u now db = (Inr (Some row), db') \<and> confidence row = y
                  \<and> map confidence (clauses db')
                      = map (\<lambda>c. if cid c = i then y else confidence c) (clauses db))"
    using update_stores_given [of u y db i now] by simp
  have u2: "up_confidence u = Some y \<and> (y < 0 \<or> 1 < y) \<and> i \<in> cid ` set (clauses db)
          \<longrightarrow> fst (update i u now db) = Inl SqliteConstraint
              \<and> map confidence (clauses (snd (update i u now db))) = map confidence (clauses db)"
    using update_rejects [of u y i db now] by simp
  show ?thesis
    by (intro conjI) (fact ops c1 c2 c3 u1 u2)+
qed

theorem confidence_stays_in_range_witness:
  "confidence_in_range seattle_db
   \<and> confidence_in_range (snd (reinforce 0 0.2 2000 seattle_db))
   \<and> confidence_in_range (snd (reinforce_DecayRunner 0 0.2 2000 seattle_db))
   \<and> in_confidence (seattle_input\<lparr>in_confidence := None\<rparr>) = None
   \<and> (\<exists>c db'. create (seattle_input\<lparr>in_confidence := None\<rparr>) 2000 seattle_db = (Inr c, db')
         \<and> confidence c = 0.8 \<and> clauses db' = clauses seattle_db @ [c])
   \<and> in_confidence seattle_input = Some 0.9
   \<and> (\<exists>c db'. create seattle_input 2000 seattle_db = (Inr c, db')
         \<and> confidence c = 0.9 \<and> clauses db' = clauses seattle_db @ [c])
   \<and> up_confidence (no_changes\<lparr>up_confidence := Some (- 0.5)\<rparr>) = Some (- 0.5)
   \<and> 0 \<in> cid ` set (clauses seattle_db)
   \<and> fst (update 0 (no_changes\<lparr>up_confidence := Some (- 0.5)\<rparr>) 2000 seattle_db)
       = Inl SqliteConstraint"
proof -
  have r: "confidence_in_range seattle_db"
    by (simp add: confidence_in_range_def seattle_db_def seattle_clause_def)
  have g: "in_confidence seattle_input = Some 0.9" "(0::real) \<le> 0.9" "(0.9::real) \<le> 1"
    "0 \<le> (case in_decay_rate seattle_input of Some r \<Rightarrow> r
           | None \<Rightarrow> DEFAULT_DECAY_RATES (in_type seattle_input))"
    by (simp_all add: seattle_input_def)
  note t2 = confidence_stays_in_range [OF r, of seattle_input 2000 _ _ _ _ _ _ _ _ _ _ _ _ _ _ _ _ _ _ "0.9"]
  from t2 g have s: "\<exists>c db'. create seattle_input 2000 seattle_db = (Inr c, db')
         \<and> confidence c = 0.9 \<and> clauses db' = clauses seattle_db @ [c]"
    by blast
  have h: "in_confidence (seattle_input\<lparr>in_confidence := None\<rparr>) = None"
    "0 \<le> (case in_decay_rate (seattle_input\<lparr>in_confidence := None\<rparr>) of Some r \<Rightarrow> r
           | None \<Rightarrow> DEFAULT_DECAY_RATES (in_type (seattle_input\<lparr>in_confidence := None\<rparr>)))"
    "up_confidence (no_changes\<lparr>up_confidence := Some (- 0.5)\<rparr>) = Some (- 0.5)"
    "(- 0.5 :: real) < 0" "0 \<in> cid ` set (clauses seattle_db)"
    by (simp_all add: seattle_input_def no_changes_def seattle_db_def seattle_clause_def)
  note t = confidence_stays_in_range [OF r, of "seattle_input\<lparr>in_confidence := None\<rparr>" 2000 0
      "no_changes\<lparr>up_confidence := Some (- 0.5)\<rparr>" _ "0.2" _ _ _ _ _ _ _ _ _ _ _ _ _ _ "- 0.5"]
  from t r h g(1) s show ?thesis by blast
qed

section \<open>Ingestion: supersession and contradiction\<close>

lemma create_ok:
  assumes "input_ok input"
  shows "create input now db =
     (Inr (new_clause input now (next_uuid db)),
      bump_counter ''total_clauses_extracted''
        (db\<lparr>next_uuid := Suc (next_uuid db),
            clauses := clauses db @ [new_clause input now (next_uuid db)]\<rparr>))"
  using assms
  by (simp add: create_def uuidv7_def insert_clause_def check_clause_def input_ok_def
        new_clause_def Let_def)

lemma conflicts_bump_counter [simp]: "conflicts (bump_counter k db) = conflicts db"
  by (simp add: bump_counter_def Let_def setMetadata_def)

lemma next_uuid_bump_counter [simp]: "next_uuid (bump_counter k db) = next_uuid db"
  by (simp add: bump_counter_def Let_def setMetadata_def)

lemma new_clause_fields [simp]:
  "cid (new_clause input now i) = i"
  "subject (new_clause input now i) = in_subject input"
  "predicate (new_clause input now i) = in_predicate input"
  "object (new_clause input now i) = in_object input"
  "valid_to (new_clause input now i) = None"
  "confidence (new_clause input now i) = (case in_confidence input of Some x \<Rightarrow> x | None \<Rightarrow> 0.8)"
  by (simp_all add: new_clause_def Let_def)

lemma lower_examples:
  "toLowerCase ''Seattle'' = ''seattle''" "toLowerCase ''Denver'' = ''denver''"
  "toLowerCase ''blue'' = ''blue''" "toLowerCase ''red'' = ''red''"
  by code_simp+

text \<open>
  C2, as stated, fails. \<open>processNewClause\<close> looks only at active rows with confidence
  above 0.3. A first candidate for (user, lives_in) stored with confidence 0.2 is not
  seen when the second arrives: the second is inserted beside it and both stay active.
\<close>

theorem singleton_not_enforced_below_threshold:
  "''lives_in'' \<in> set SINGLETON_PREDICATES
   \<and> map (\<lambda>c. (object c, valid_to c))
       (active_for ''user'' ''lives_in''
          (snd (processNewClause denver_input 2000
             (snd (processNewClause (seattle_input\<lparr>in_confidence := Some 0.2\<rparr>) 1000 empty_db)))))
     = [(''Seattle'', None), (''Denver'', None)]"
  by (simp add: processNewClause_def Let_def create_def uuidv7_def insert_clause_def check_clause_def
        new_clause_def seattle_input_def denver_input_def empty_db_def active_for_def
        SINGLETON_PREDICATES_def)

text \<open>
  C2, amended: when no clause of (subject, predicate) is active, the predicate is a
  singleton, the first candidate's confidence (0.8 when absent) is above 0.3, both
  candidates pass the CHECK constraints and their objects differ after case folding,
  then \<open>processNewClause\<close> inserts the first, and on the second it returns
  \<open>superseded\<close>: afterwards the second clause is the only active row of the pair, and the
  first is in the table with \<open>valid_to\<close> set and \<open>invalidation_reason = superseded\<close>.
\<close>

theorem singleton_supersession:
  assumes none: "active_for (in_subject a) (in_predicate a) db = []"
    and same: "in_subject b = in_subject a" "in_predicate b = in_predicate a"
    and single: "in_predicate a \<in> set SINGLETON_PREDICATES"
    and diff: "toLowerCase (in_object a) \<noteq> toLowerCase (in_object b)"
    and oka: "input_ok a" and conf: "(case in_confidence a of Some x \<Rightarrow> x | None \<Rightarrow> 0.8) > 0.3"
    and okb: "input_ok b"
  shows "\<exists>r1 db1 r2 db2 c1 c2.
       processNewClause a t1 db = (Inr r1, db1) \<and> processNewClause b t2 db1 = (Inr r2, db2)
     \<and> action r1 = Insert \<and> pr_clause r1 = Some c1 \<and> object c1 = in_object a
     \<and> action r2 = Superseded \<and> pr_clause r2 = Some c2 \<and> object c2 = in_object b
     \<and> invalidatedId r2 = Some (cid c1)
     \<and> active_for (in_subject a) (in_predicate a) db2 = [c2]
     \<and> c1\<lparr>valid_to := Some t2,
           metadata := json_set (metadata c1) ''invalidation_reason'' (JStr ''superseded'')\<rparr>
         \<in> set (clauses db2)"
proof -
  define c1 where "c1 = new_clause a t1 (next_uuid db)"
  define db1 where "db1 = bump_counter ''total_clauses_extracted''
        (db\<lparr>next_uuid := Suc (next_uuid db), clauses := clauses db @ [c1]\<rparr>)"
  have none': "filter (\<lambda>c. subject c = in_subject a \<and> predicate c = in_predicate a
                         \<and> valid_to c = None) (clauses db) = []"
    using none by (simp add: active_for_def)
  have e1: "filter (\<lambda>c. subject c = in_subject a \<and> predicate c = in_predicate a
                         \<and> valid_to c = None \<and> confidence c > 0.3) (clauses db) = []"
    using none' by (auto simp: filter_empty_conv)
  have s1: "processNewClause a t1 db = (Inr ((process_result Insert)\<lparr>pr_clause := Some c1\<rparr>), db1)"
    unfolding processNewClause_def Let_def e1 list.case create_ok [OF oka]
    by (simp add: c1_def db1_def)
  have cl1: "clauses db1 = clauses db @ [c1]" by (simp add: db1_def)
  have e2: "filter (\<lambda>c. subject c = in_subject b \<and> predicate c = in_predicate b
                         \<and> valid_to c = None \<and> confidence c > 0.3) (clauses db1) = [c1]"
    unfolding cl1 same using e1 conf by (simp add: c1_def)
  have rel: "analyzeRelation c1 b = RelSupersession"
    using diff single by (simp add: analyzeRelation_def c1_def)
  define db1i where "db1i = invalidate (cid c1) (Some ''superseded'') t2 db1"
  define c2 where "c2 = new_clause b t2 (next_uuid db1i)"
  define db2 where "db2 = bump_counter ''total_clauses_extracted''
        (db1i\<lparr>next_uuid := Suc (next_uuid db1i), clauses := clauses db1i @ [c2]\<rparr>)"
  have s2: "processNewClause b t2 db1
      = (Inr ((process_result Superseded)\<lparr>pr_clause := Some c2, invalidatedId := Some (cid c1)\<rparr>), db2)"
    unfolding processNewClause_def Let_def e2 list.case rel Relation.case db1i_def [symmetric]
      create_ok [OF okb]
    by (simp add: c2_def db2_def)
  have cl2: "clauses db2 = map (\<lambda>c. if cid c = cid c1
               then c\<lparr>valid_to := Some t2,
                      metadata := json_set (metadata c) ''invalidation_reason'' (JStr ''superseded'')\<rparr>
               else c) (clauses db @ [c1]) @ [c2]"
    by (simp add: db2_def db1i_def clauses_invalidate cl1)
  have act: "active_for (in_subject a) (in_predicate a) db2 = [c2]"
    unfolding active_for_def cl2 using none' same
    by (auto simp: filter_empty_conv c2_def filter_map comp_def)
  have inv: "c1\<lparr>valid_to := Some t2,
           metadata := json_set (metadata c1) ''invalidation_reason'' (JStr ''superseded'')\<rparr>
         \<in> set (clauses db2)"
    unfolding cl2 by simp
  from s1 s2 act inv show ?thesis
    by (simp add: process_result_def c1_def c2_def)
qed

theorem singleton_supersession_witness:
  "active_for (in_subject seattle_input) (in_predicate seattle_input) empty_db = []
   \<and> in_subject denver_input = in_subject seattle_input
   \<and> in_predicate denver_input = in_predicate seattle_input
   \<and> in_predicate seattle_input \<in> set SINGLETON_PREDICATES
   \<and> toLowerCase (in_object seattle_input) \<noteq> toLowerCase (in_object denver_input)
   \<and> input_ok seattle_input \<and> input_ok denver_input
   \<and> (\<exists>r1 db1 r2 db2. processNewClause seattle_input 1000 empty_db = (Inr r1, db1)
        \<and> processNewClause denver_input 2000 db1 = (Inr r2, db2)
        \<and> action r2 = Superseded
        \<and> map object (active_for ''user'' ''lives_in'' db2) = [''Denver''])"
proof -
  have h: "active_for (in_subject seattle_input) (in_predicate seattle_input) empty_db = []"
    "in_subject denver_input = in_subject seattle_input"
    "in_predicate denver_input = in_predicate seattle_input"
    "in_predicate seattle_input \<in> set SINGLETON_PREDICATES"
    "toLowerCase (in_object seattle_input) \<noteq> toLowerCase (in_object denver_input)"
    "input_ok seattle_input"
    "(case in_confidence seattle_input of Some x \<Rightarrow> x | None \<Rightarrow> 0.8) > 0.3"
    "input_ok denver_input"
    by (simp_all add: seattle_input_def denver_input_def empty_db_def active_for_def
          lower_examples input_ok_def SINGLETON_PREDICATES_def)
  from singleton_supersession [OF h, of 1000 2000]
  obtain r1 db1 r2 db2 c2 where x: "processNewClause seattle_input 1000 empty_db = (Inr r1, db1)"
    "processNewClause denver_input 2000 db1 = (Inr r2, db2)" "action r2 = Superseded"
    "object c2 = in_object denver_input"
    "active_for (in_subject seattle_input) (in_predicate seattle_input) db2 = [c2]"
    by blast
  have m: "map object (active_for ''user'' ''lives_in'' db2) = [''Denver'']"
    using x(4,5) by (simp add: seattle_input_def denver_input_def)
  have e: "\<exists>r1 db1 r2 db2. processNewClause seattle_input 1000 empty_db = (Inr r1, db1)
        \<and> processNewClause denver_input 2000 db1 = (Inr r2, db2)
        \<and> action r2 = Superseded
        \<and> map object (active_for ''user'' ''lives_in'' db2) = [''Denver'']"
    by (intro exI conjI) (fact x(1-3) m)+
  show ?thesis by (intro conjI) (fact h e)+
qed




section \<open>Deduplication\<close>










section \<open>Retrieval when a collaborator is unavailable\<close>

subsection \<open>Ordering and merging\<close>

lemma set_insert_row [simp]: "set (insert_row f x xs) = insert x (set xs)"
  by (induction xs) auto

lemma length_insert_row [simp]: "length (insert_row f x xs) = Suc (length xs)"
  by (induction xs) auto

lemma set_order_by [simp]: "set (order_by f xs) = set xs"
  by (induction xs) (simp_all add: order_by_def)

lemma length_order_by [simp]: "length (order_by f xs) = length xs"
  by (induction xs) (simp_all add: order_by_def)












lemma trim_Nil [simp]: "trim [] = []"
  by (simp add: trim_def)








subsection \<open>Degrading to keyword search\<close>




end
